theory Spec2Isabelle
  imports Complex_Main "HOL-Library.Monad_Syntax" "HOL-Library.Sublist"
begin

section \<open>Scene replication: NetworkObjectRegistry and ReplicationManager\<close>

text \<open>
  A shallow embedding of \<^verbatim>\<open>Source/Urho3D/Replica/ReplicationManager.cpp\<close>.

  Pointers to objects of the engine (NetworkObject, AbstractConnection, Scene) are
  natural numbers; a nullable or weak pointer is an \<open>option\<close>. The manager is one
  record: the fields of the tracked-component base registry, of
  \<^verbatim>\<open>NetworkObjectRegistry\<close> and of \<^verbatim>\<open>ReplicationManager\<close> (which derives from
  it), the state the code reads from each NetworkObject, and the list of calls the code
  has issued to its collaborators (replicas, connection, scene, objects), in order.

  An operation that can write outside a vector, dereference an empty optional or fail
  an assertion returns an \<open>option\<close>; \<open>None\<close> stands for that fault.
  Log output (\<^verbatim>\<open>URHO3D_LOG*\<close>, \<^verbatim>\<open>LogMessagePayload\<close>) is left out.
\<close>

subsection \<open>Data model\<close>

type_synonym NetworkObject = nat
type_synonym AbstractConnection = nat
type_synonym Scene = nat
type_synonym MemoryBuffer = "nat list"
type_synonym VariantMap = "(string \<times> int) list"

datatype NetworkId = NetworkId_None | NetworkId (refIndex: nat) (refVersion: nat)

datatype ReplicationManagerMode = Standalone | Server | Client

datatype NetworkObjectMode = Mode_Standalone | Mode_Server | Mode_ClientReplicated

datatype NetworkMessageId = MSG_CONFIGURE | MSG_SYNCHRONIZED | MSG_SCENE_CLOCK | MSG_OTHER nat

datatype PacketType = ReliableOrdered | ReliableUnordered | UnreliableOrdered | UnreliableUnordered

datatype SceneEventType = E_SCENENETWORKUPDATE | E_SCENENETWORKPOSTUPDATE

record MsgConfigure =
  magic :: nat
  settings :: VariantMap

datatype MsgSceneClock = MsgSceneClock nat

datatype ClientReplica = ClientReplica Scene AbstractConnection MsgSceneClock VariantMap

datatype ServerReplicator = ServerReplicator Scene

text \<open>\<^verbatim>\<open>ReplicationManager::ClientData\<close>: the weak connection handle, the handshake
  accumulator and the replica once it exists.\<close>

record ClientData =
  connection :: "AbstractConnection option"
  serverSettings :: "VariantMap option"
  initialClock :: "MsgSceneClock option"
  ackMagic :: "nat option"
  replica :: "ClientReplica option"

text \<open>Calls issued to collaborators whose code is outside this file.\<close>

datatype call =
    Signal_OnNetworkObjectAdded NetworkObject
  | Signal_OnNetworkObjectRemoved NetworkObject
  | UpdateObjectHierarchy NetworkObject
  | GetWorldTransform NetworkObject
  | SetNetworkMode NetworkObject NetworkObjectMode
  | InitializeStandalone NetworkObject
  | NodeRemoved NetworkObject
  | ConstructClientReplica Scene AbstractConnection MsgSceneClock VariantMap
  | ConstructServerReplicator Scene
  | WriteSerializedMessage AbstractConnection NetworkMessageId nat PacketType
  | SendEvent SceneEventType Scene real real
  | Server_ProcessSceneUpdate SceneEventType
  | Replica_ProcessSceneUpdate SceneEventType
  | Replica_ProcessMessage NetworkMessageId MemoryBuffer
  | Server_ProcessMessage AbstractConnection NetworkMessageId MemoryBuffer
  | Server_RemoveConnection "AbstractConnection option"

text \<open>The cached hierarchy links every NetworkObject holds: its parent and its children.\<close>

type_synonym hierarchy = "(NetworkObject \<Rightarrow> NetworkObject option) \<times> (NetworkObject \<Rightarrow> NetworkObject list)"

record manager =
  trackedComponents :: "NetworkObject list"
  entries :: "(nat \<times> NetworkObject) option list"
  objectNetworkId :: "NetworkObject \<Rightarrow> NetworkId"
  parentNetworkObject :: "NetworkObject \<Rightarrow> NetworkObject option"
  childrenNetworkObjects :: "NetworkObject \<Rightarrow> NetworkObject list"
  networkObjectsDirty :: "bool list"
  scene :: Scene
  mode :: ReplicationManagerMode
  client :: "ClientData option"
  server :: "ServerReplicator option"
  recentlyAddedObjects :: "NetworkId list"
  calls :: "call list"

text \<open>What the collaborators answer and do. The readers stand for
  \<^verbatim>\<open>ReadSerializedMessage\<close>; \<open>updateObjectHierarchy\<close> is the effect of
  \<^verbatim>\<open>NetworkObject::UpdateObjectHierarchy\<close> on the cached links; \<open>nodeExpired\<close> tells
  whether the weak pointer to an object's node is empty, and \<open>nodeComponents\<close> lists the
  NetworkObjects whose removal \<^verbatim>\<open>Node::Remove\<close> on that node cascades to.\<close>

record env =
  isClockSynchronized :: "AbstractConnection \<Rightarrow> bool"
  readMsgConfigure :: "MemoryBuffer \<Rightarrow> MsgConfigure"
  readMsgSceneClock :: "MemoryBuffer \<Rightarrow> MsgSceneClock"
  replicaProcessMessage :: "ClientReplica \<Rightarrow> NetworkMessageId \<Rightarrow> MemoryBuffer \<Rightarrow> bool"
  serverProcessMessage ::
    "ServerReplicator \<Rightarrow> AbstractConnection \<Rightarrow> NetworkMessageId \<Rightarrow> MemoryBuffer \<Rightarrow> bool"
  updateObjectHierarchy :: "NetworkObject \<Rightarrow> hierarchy \<Rightarrow> hierarchy"
  nodeExpired :: "NetworkObject \<Rightarrow> manager \<Rightarrow> bool"
  nodeComponents :: "NetworkObject \<Rightarrow> manager \<Rightarrow> NetworkObject list"

subsection \<open>Tracked component registry (base class)\<close>

text \<open>Modelled from the spec: the base class \<^verbatim>\<open>ReferencedComponentRegistryBase\<close> is not
  among the sources. Per the spec (4.1) a lookup returns the live component, or no match
  if the slot is empty, the version mismatches (unless the access is unchecked), or the
  index exceeds the index space.\<close>

definition GetTrackedComponentByReferenceIndex :: "nat \<Rightarrow> manager \<Rightarrow> NetworkObject option" where
  "GetTrackedComponentByReferenceIndex i s =
     (if i < length (entries s) then map_option snd (entries s ! i) else None)"

definition GetTrackedComponentByReference ::
    "NetworkId \<Rightarrow> bool \<Rightarrow> manager \<Rightarrow> NetworkObject option" where
  "GetTrackedComponentByReference networkId checkVersion s =
     (case networkId of
        NetworkId_None \<Rightarrow> None
      | NetworkId i v \<Rightarrow>
          (if i < length (entries s) then
             (case entries s ! i of
                None \<Rightarrow> None
              | Some (v', component) \<Rightarrow>
                  if checkVersion \<and> v' \<noteq> v then None else Some component)
           else None))"

text \<open>Modelled from the spec: \<open>Add\<close> assigns or reuses an (index, version) reference. The
  reference chosen by the base class is the argument \<open>(i, v)\<close>; the component is
  appended to the dense array of tracked components and the slot is filled.\<close>

definition Base_OnComponentAdded :: "nat \<times> nat \<Rightarrow> NetworkObject \<Rightarrow> manager \<Rightarrow> manager" where
  "Base_OnComponentAdded ref component s =
     (let i = fst ref; v = snd ref;
          es = entries s @ replicate (Suc i - length (entries s)) None
      in s\<lparr>trackedComponents := trackedComponents s @ [component],
           entries := es[i := Some (v, component)],
           objectNetworkId := (objectNetworkId s)(component := NetworkId i v)\<rparr>)"

text \<open>Modelled from the spec: \<open>Remove\<close> unlinks the component: it leaves the tracked
  components and, if its slot still holds it, the slot is emptied.\<close>

definition Base_OnComponentRemoved :: "NetworkObject \<Rightarrow> manager \<Rightarrow> manager" where
  "Base_OnComponentRemoved component s =
     s\<lparr>trackedComponents := removeAll component (trackedComponents s),
       entries := map (\<lambda>e. case e of None \<Rightarrow> None
                         | Some (v, c) \<Rightarrow> if c = component then None else Some (v, c)) (entries s)\<rparr>"

subsection \<open>NetworkObjectRegistry\<close>

definition GetNetworkObject :: "NetworkId \<Rightarrow> bool \<Rightarrow> manager \<Rightarrow> NetworkObject option" where
  "GetNetworkObject networkId checkVersion s =
     GetTrackedComponentByReference networkId checkVersion s"

definition GetNetworkObjectByIndex :: "nat \<Rightarrow> manager \<Rightarrow> NetworkObject option" where
  "GetNetworkObjectByIndex networkIndex s = GetTrackedComponentByReferenceIndex networkIndex s"

definition GetNetworkObjects :: "manager \<Rightarrow> NetworkObject list" where
  "GetNetworkObjects s = trackedComponents s"

definition NetworkObjectRegistry_OnComponentAdded ::
    "nat \<times> nat \<Rightarrow> NetworkObject \<Rightarrow> manager \<Rightarrow> manager" where
  "NetworkObjectRegistry_OnComponentAdded ref networkObject s =
     (let s1 = Base_OnComponentAdded ref networkObject s;
          index = fst ref;
          d = networkObjectsDirty s1;
          d1 = (if length d \<le> index then d @ replicate (index + 1 - length d) False else d)
      in s1\<lparr>networkObjectsDirty := d1[index := True],
            calls := calls s1 @ [Signal_OnNetworkObjectAdded networkObject]\<rparr>)"

text \<open>\<^verbatim>\<open>networkObjectsDirty_[index] = true\<close> is an unchecked vector write: outside the
  vector it is a fault.\<close>

definition QueueNetworkObjectUpdate :: "NetworkObject \<Rightarrow> manager \<Rightarrow> manager option" where
  "QueueNetworkObjectUpdate networkObject s =
     (let networkId = objectNetworkId s networkObject in
      if GetNetworkObject networkId True s \<noteq> Some networkObject then Some s
      else
        (let index = refIndex networkId in
         if index < length (networkObjectsDirty s)
         then Some (s\<lparr>networkObjectsDirty := (networkObjectsDirty s)[index := True]\<rparr>)
         else None))"

definition NetworkObjectRegistry_OnComponentRemoved ::
    "NetworkObject \<Rightarrow> manager \<Rightarrow> manager option" where
  "NetworkObjectRegistry_OnComponentRemoved networkObject s =
     do {
       s1 \<leftarrow> (case parentNetworkObject s networkObject of
                None \<Rightarrow> Some s
              | Some parentObject \<Rightarrow>
                  if objectNetworkId s parentObject \<noteq> NetworkId_None
                  then QueueNetworkObjectUpdate parentObject s
                  else Some s);
       Some (Base_OnComponentRemoved networkObject
               (s1\<lparr>calls := calls s1 @ [Signal_OnNetworkObjectRemoved networkObject]\<rparr>))
     }"

text \<open>One round of the loop of \<^verbatim>\<open>UpdateNetworkObjects\<close> on a flagged, resolvable
  object: the hierarchy is re-linked and the world transform is read.\<close>

definition refreshObject :: "env \<Rightarrow> NetworkObject \<Rightarrow> manager \<Rightarrow> manager" where
  "refreshObject E networkObject s =
     (let h = updateObjectHierarchy E networkObject
                (parentNetworkObject s, childrenNetworkObjects s)
      in s\<lparr>parentNetworkObject := fst h, childrenNetworkObjects := snd h,
           calls := calls s @ [UpdateObjectHierarchy networkObject, GetWorldTransform networkObject]\<rparr>)"

function UpdateNetworkObjects_from :: "env \<Rightarrow> nat \<Rightarrow> manager \<Rightarrow> manager" where
  "UpdateNetworkObjects_from E index s =
     (if index < length (networkObjectsDirty s) then
        (if \<not> networkObjectsDirty s ! index then UpdateNetworkObjects_from E (Suc index) s
         else
           (let s1 = (case GetNetworkObjectByIndex index s of
                        Some networkObject \<Rightarrow> refreshObject E networkObject s
                      | None \<Rightarrow> s)
            in UpdateNetworkObjects_from E (Suc index)
                 (s1\<lparr>networkObjectsDirty := (networkObjectsDirty s1)[index := False]\<rparr>)))
      else s)"
  by pat_completeness auto
termination
  by (relation "measure (\<lambda>(E, index, s). length (networkObjectsDirty s) - index)")
     (auto simp: refreshObject_def Let_def split: option.splits)

definition UpdateNetworkObjects :: "env \<Rightarrow> manager \<Rightarrow> manager" where
  "UpdateNetworkObjects E s = UpdateNetworkObjects_from E 0 s"



subsection \<open>ReplicationManager: component notifications and frame ticks\<close>

text \<open>Modelled from the spec: \<^verbatim>\<open>IsStandalone\<close> is declared in the header, which is not among
  the sources; the manager is standalone when its mode is \<open>Standalone\<close>.\<close>

definition IsStandalone :: "manager \<Rightarrow> bool" where
  "IsStandalone s = (mode s = Standalone)"

text \<open>\<^verbatim>\<open>recentlyAddedObjects_\<close> is a hash set: a list without repetitions, whose order
  carries no meaning.\<close>

definition ReplicationManager_OnComponentAdded ::
    "nat \<times> nat \<Rightarrow> NetworkObject \<Rightarrow> manager \<Rightarrow> manager" where
  "ReplicationManager_OnComponentAdded ref networkObject s =
     (let s1 = NetworkObjectRegistry_OnComponentAdded ref networkObject s in
      if IsStandalone s1
      then s1\<lparr>recentlyAddedObjects :=
                List.insert (objectNetworkId s1 networkObject) (recentlyAddedObjects s1)\<rparr>
      else s1)"

definition ReplicationManager_OnComponentRemoved ::
    "NetworkObject \<Rightarrow> manager \<Rightarrow> manager option" where
  "ReplicationManager_OnComponentRemoved networkObject s =
     (let s1 = (if IsStandalone s
                then s\<lparr>recentlyAddedObjects :=
                         removeAll (objectNetworkId s networkObject) (recentlyAddedObjects s)\<rparr>
                else s)
      in NetworkObjectRegistry_OnComponentRemoved networkObject s1)"

fun initializeEach :: "NetworkId list \<Rightarrow> manager \<Rightarrow> manager" where
  "initializeEach [] s = s"
| "initializeEach (networkId # rest) s =
     (case GetNetworkObject networkId True s of
        None \<Rightarrow> initializeEach rest s
      | Some networkObject \<Rightarrow>
          initializeEach rest
            (s\<lparr>calls := calls s @ [SetNetworkMode networkObject Mode_Standalone,
                                    InitializeStandalone networkObject]\<rparr>))"

definition InitializeObjectsStandalone :: "manager \<Rightarrow> manager" where
  "InitializeObjectsStandalone s =
     (initializeEach (recentlyAddedObjects s) s)\<lparr>recentlyAddedObjects := []\<rparr>"

text \<open>A failed \<^verbatim>\<open>URHO3D_ASSERT\<close> is a fault.\<close>

definition HandleSceneUpdate :: "SceneEventType \<Rightarrow> real \<Rightarrow> manager \<Rightarrow> manager option" where
  "HandleSceneUpdate eventType timeStep s =
     (case mode s of
        Standalone \<Rightarrow>
          if server s \<noteq> None \<or> client s \<noteq> None then None
          else
            (let s1 = InitializeObjectsStandalone s in
             Some (s1\<lparr>calls := calls s1 @ [SendEvent eventType (scene s1) timeStep timeStep]\<rparr>))
      | Server \<Rightarrow>
          (case server s of
             None \<Rightarrow> None
           | Some sv \<Rightarrow> Some (s\<lparr>calls := calls s @ [Server_ProcessSceneUpdate eventType]\<rparr>))
      | Client \<Rightarrow>
          (case client s of
             None \<Rightarrow> None
           | Some c \<Rightarrow>
               if replica c \<noteq> None
               then Some (s\<lparr>calls := calls s @ [Replica_ProcessSceneUpdate eventType]\<rparr>)
               else Some s))"

definition OnSceneUpdate :: "real \<Rightarrow> manager \<Rightarrow> manager option" where
  "OnSceneUpdate timeStep s = HandleSceneUpdate E_SCENENETWORKUPDATE timeStep s"

definition OnScenePostUpdate :: "env \<Rightarrow> real \<Rightarrow> manager \<Rightarrow> manager option" where
  "OnScenePostUpdate E timeStep s =
     do {
       s1 \<leftarrow> HandleSceneUpdate E_SCENENETWORKPOSTUPDATE timeStep s;
       Some (UpdateNetworkObjects E s1)
     }"

subsection \<open>ReplicationManager: removal of all objects and mode transitions\<close>

fun removeComponents :: "NetworkObject list \<Rightarrow> manager \<Rightarrow> manager option" where
  "removeComponents [] s = Some s"
| "removeComponents (networkObject # rest) s =
     do {
       s1 \<leftarrow> ReplicationManager_OnComponentRemoved networkObject s;
       removeComponents rest s1
     }"

text \<open>\<^verbatim>\<open>Node::Remove\<close> belongs to the scene graph: the components it detaches are given
  by \<open>nodeComponents\<close>, and each goes through the removal notification.\<close>

definition Node_Remove :: "env \<Rightarrow> NetworkObject \<Rightarrow> manager \<Rightarrow> manager option" where
  "Node_Remove E node s =
     removeComponents (nodeComponents E node s) (s\<lparr>calls := calls s @ [NodeRemoved node]\<rparr>)"

fun removeNodes :: "env \<Rightarrow> NetworkObject list \<Rightarrow> manager \<Rightarrow> manager option" where
  "removeNodes E [] s = Some s"
| "removeNodes E (node # nodesToRemove) s =
     do {
       s1 \<leftarrow> (if nodeExpired E node s then Some s else Node_Remove E node s);
       removeNodes E nodesToRemove s1
     }"

definition RemoveAllNetworkObjects :: "env \<Rightarrow> manager \<Rightarrow> manager option" where
  "RemoveAllNetworkObjects E s =
     do {
       s1 \<leftarrow> removeNodes E (GetNetworkObjects s) s;
       Some (s1\<lparr>networkObjectsDirty := []\<rparr>)
     }"

definition Stop :: "manager \<Rightarrow> manager" where
  "Stop s =
     (let s1 = (if client s \<noteq> None then s\<lparr>client := None\<rparr> else s);
          s2 = (if server s1 \<noteq> None then s1\<lparr>server := None\<rparr> else s1)
      in s2\<lparr>recentlyAddedObjects := [], mode := Standalone\<rparr>)"

definition StartStandalone :: "manager \<Rightarrow> manager" where
  "StartStandalone s =
     (let s1 = (Stop s)\<lparr>mode := Standalone\<rparr> in
      s1\<lparr>calls := calls s1 @
            concat (map (\<lambda>networkObject. [SetNetworkMode networkObject Mode_Standalone,
                                          InitializeStandalone networkObject])
                        (GetNetworkObjects s1))\<rparr>)"

definition StartServer :: "manager \<Rightarrow> manager" where
  "StartServer s =
     (let s1 = (Stop s)\<lparr>mode := Server\<rparr> in
      s1\<lparr>server := Some (ServerReplicator (scene s1)),
         calls := calls s1 @ [ConstructServerReplicator (scene s1)]\<rparr>)"

definition StartClient :: "env \<Rightarrow> AbstractConnection option \<Rightarrow> manager \<Rightarrow> manager option" where
  "StartClient E connectionToServer s =
     (let s1 = (Stop s)\<lparr>mode := Client\<rparr>;
          s2 = s1\<lparr>client := Some \<lparr>connection = connectionToServer, serverSettings = None,
                                  initialClock = None, ackMagic = None, replica = None\<rparr>\<rparr>
      in RemoveAllNetworkObjects E s2)"

text \<open>The manager as its constructor leaves it, attached to a scene.\<close>

definition ReplicationManager_new :: "Scene \<Rightarrow> manager" where
  "ReplicationManager_new sc =
     \<lparr>trackedComponents = [], entries = [], objectNetworkId = (\<lambda>_. NetworkId_None),
      parentNetworkObject = (\<lambda>_. None), childrenNetworkObjects = (\<lambda>_. []),
      networkObjectsDirty = [], scene = sc, mode = Standalone, client = None, server = None,
      recentlyAddedObjects = [], calls = []\<rparr>"

subsection \<open>ReplicationManager: messages and connections\<close>

text \<open>Modelled from the spec: \<^verbatim>\<open>ClientData::IsReadyToInitialize\<close> is declared in the
  header, which is not among the sources; the client is ready once both the settings
  bundle and the initial clock snapshot have been received.\<close>

definition IsReadyToInitialize :: "ClientData \<Rightarrow> bool" where
  "IsReadyToInitialize c = (serverSettings c \<noteq> None \<and> initialClock c \<noteq> None)"

text \<open>The tail of \<^verbatim>\<open>ProcessMessageOnUninitializedClient\<close>, after the message has been
  stored. Dereferencing an empty optional is a fault.\<close>

definition initializeIfReady ::
    "env \<Rightarrow> AbstractConnection \<Rightarrow> ClientData \<Rightarrow> manager \<Rightarrow> (bool \<times> manager) option" where
  "initializeIfReady E conn c s =
     (if isClockSynchronized E conn \<and> IsReadyToInitialize c then
        (case (initialClock c, serverSettings c, ackMagic c) of
           (Some clock, Some sett, Some m) \<Rightarrow>
             Some (True,
               s\<lparr>client := Some (c\<lparr>replica := Some (ClientReplica (scene s) conn clock sett)\<rparr>),
                 calls := calls s @
                   [ConstructClientReplica (scene s) conn clock sett,
                    WriteSerializedMessage conn MSG_SYNCHRONIZED m ReliableUnordered]\<rparr>)
         | _ \<Rightarrow> None)
      else Some (True, s\<lparr>client := Some c\<rparr>))"

definition ProcessMessageOnUninitializedClient ::
    "env \<Rightarrow> AbstractConnection \<Rightarrow> NetworkMessageId \<Rightarrow> MemoryBuffer \<Rightarrow> manager
       \<Rightarrow> (bool \<times> manager) option" where
  "ProcessMessageOnUninitializedClient E conn messageId messageData s =
     (case client s of
        None \<Rightarrow> None
      | Some c \<Rightarrow>
          if replica c \<noteq> None then None
          else if messageId = MSG_CONFIGURE then
            (let msg = readMsgConfigure E messageData in
             initializeIfReady E conn
               (c\<lparr>ackMagic := Some (magic msg), serverSettings := Some (settings msg)\<rparr>) s)
          else if messageId = MSG_SCENE_CLOCK then
            (let msg = readMsgSceneClock E messageData in
             initializeIfReady E conn (c\<lparr>initialClock := Some msg\<rparr>) s)
          else Some (False, s))"

definition ProcessMessage ::
    "env \<Rightarrow> AbstractConnection \<Rightarrow> NetworkMessageId \<Rightarrow> MemoryBuffer \<Rightarrow> manager
       \<Rightarrow> (bool \<times> manager) option" where
  "ProcessMessage E conn messageId messageData s =
     (case client s of
        Some c \<Rightarrow>
          (case replica c of
             None \<Rightarrow> ProcessMessageOnUninitializedClient E conn messageId messageData s
           | Some r \<Rightarrow>
               Some (replicaProcessMessage E r messageId messageData,
                     s\<lparr>calls := calls s @ [Replica_ProcessMessage messageId messageData]\<rparr>))
      | None \<Rightarrow>
          (case server s of
             Some sv \<Rightarrow>
               Some (serverProcessMessage E sv conn messageId messageData,
                     s\<lparr>calls := calls s @ [Server_ProcessMessage conn messageId messageData]\<rparr>)
           | None \<Rightarrow> Some (False, s)))"

definition DropConnection :: "AbstractConnection option \<Rightarrow> manager \<Rightarrow> manager" where
  "DropConnection conn s =
     (case server s of
        Some sv \<Rightarrow> s\<lparr>calls := calls s @ [Server_RemoveConnection conn]\<rparr>
      | None \<Rightarrow>
          (case client s of
             Some c \<Rightarrow> if connection c = conn then StartStandalone s else s
           | None \<Rightarrow> s))"

subsection \<open>Debug information of the uninitialized client\<close>

fun joined :: "string list \<Rightarrow> string \<Rightarrow> string" where
  "joined [] sep = []"
| "joined [x] sep = x"
| "joined (x # y # rest) sep = x @ sep @ joined (y # rest) sep"

text \<open>The local vector \<^verbatim>\<open>waitList\<close> of \<^verbatim>\<open>GetUninitializedClientDebugInfo\<close>.\<close>

definition waitList :: "env \<Rightarrow> ClientData \<Rightarrow> string list" where
  "waitList E c =
     (let w1 = (case connection c of
                  Some k \<Rightarrow> if \<not> isClockSynchronized E k then [''system clock''] else []
                | None \<Rightarrow> []);
          w2 = w1 @ (if serverSettings c = None then [''settings''] else []);
          w3 = w2 @ (if initialClock c = None \<or> w2 = [] then [''server scene time''] else [])
      in w3)"

definition GetUninitializedClientDebugInfo :: "env \<Rightarrow> ClientData \<Rightarrow> string" where
  "GetUninitializedClientDebugInfo E c =
     ''Connecting... Waiting for '' @ joined (waitList E c) '', '' @ ''...''"

subsection \<open>Message deliveries to a client\<close>

text \<open>One delivery to \<^verbatim>\<open>ProcessMessage\<close>: the connection it arrives on, the message, and
  what the collaborators answer while it is processed (in particular whether the
  connection reports its clock synchronized at that time).\<close>

record delivery =
  world :: env
  sender :: AbstractConnection
  msgId :: NetworkMessageId
  msgData :: MemoryBuffer

text \<open>Deliveries are processed one after the other; the answers are dropped.\<close>

fun deliver :: "delivery list \<Rightarrow> manager \<Rightarrow> manager option" where
  "deliver [] s = Some s"
| "deliver (d # rest) s =
     do {
       r \<leftarrow> ProcessMessage (world d) (sender d) (msgId d) (msgData d) s;
       deliver rest (snd r)
     }"

text \<open>The calls the handshake is about: the construction of the client replica and the
  messages written to a connection.\<close>

fun handshakeCall :: "call \<Rightarrow> bool" where
  "handshakeCall (ConstructClientReplica sc conn clock sett) = True"
| "handshakeCall (WriteSerializedMessage conn messageId m packetType) = True"
| "handshakeCall other = False"

text \<open>The payload of the latest Configure message, and of the latest SceneClock message,
  among the deliveries.\<close>

fun lastConfigure :: "delivery list \<Rightarrow> MsgConfigure option" where
  "lastConfigure [] = None"
| "lastConfigure (d # rest) =
     (case lastConfigure rest of
        Some msg \<Rightarrow> Some msg
      | None \<Rightarrow>
          if msgId d = MSG_CONFIGURE then Some (readMsgConfigure (world d) (msgData d))
          else None)"

fun lastSceneClock :: "delivery list \<Rightarrow> MsgSceneClock option" where
  "lastSceneClock [] = None"
| "lastSceneClock (d # rest) =
     (case lastSceneClock rest of
        Some msg \<Rightarrow> Some msg
      | None \<Rightarrow>
          if msgId d = MSG_SCENE_CLOCK then Some (readMsgSceneClock (world d) (msgData d))
          else None)"

subsection \<open>Well-formed registries and concrete instances\<close>

text \<open>\<^verbatim>\<open>OnComponentAdded\<close> grows the dirty-flag vector to cover every index it registers:
  in a registry built by it, every filled slot has a dirty flag.\<close>

definition dirtyCoversEntries :: "manager \<Rightarrow> bool" where
  "dirtyCoversEntries s =
     (\<forall>i < length (entries s). entries s ! i \<noteq> None \<longrightarrow> i < length (networkObjectsDirty s))"

text \<open>Every dirty flag set in \<open>s\<close> is still there, and set, in \<open>s'\<close>.\<close>

definition dirtyFlagsKept :: "manager \<Rightarrow> manager \<Rightarrow> bool" where
  "dirtyFlagsKept s s' =
     (\<forall>i < length (networkObjectsDirty s). networkObjectsDirty s ! i \<longrightarrow>
        i < length (networkObjectsDirty s') \<and> networkObjectsDirty s' ! i)"

text \<open>The tracked components and the filled slots correspond: the tracked components
  are distinct, each resolves under its own NetworkId to itself, every filled slot holds a
  tracked component that carries the slot's index and version, and the dirty flags cover
  the slots.\<close>

definition registryConsistent :: "manager \<Rightarrow> bool" where
  "registryConsistent s =
     (distinct (trackedComponents s) \<and>
      (\<forall>networkObject \<in> set (trackedComponents s).
         GetNetworkObject (objectNetworkId s networkObject) True s = Some networkObject) \<and>
      (\<forall>i < length (entries s).
         case entries s ! i of
           None \<Rightarrow> True
         | Some (v, networkObject) \<Rightarrow>
             networkObject \<in> set (trackedComponents s) \<and>
             objectNetworkId s networkObject = NetworkId i v) \<and>
      dirtyCoversEntries s)"

subsection \<open>Scene changes between two ticks\<close>

text \<open>A NetworkObject is added to the scene, under the reference the base registry gives
  it, or removed from it; each change reaches the manager through its notification.\<close>

datatype sceneChange = Added NetworkObject nat nat | Removed NetworkObject

fun applyChange :: "sceneChange \<Rightarrow> manager \<Rightarrow> manager option" where
  "applyChange (Added networkObject i v) s =
     Some (ReplicationManager_OnComponentAdded (i, v) networkObject s)"
| "applyChange (Removed networkObject) s = ReplicationManager_OnComponentRemoved networkObject s"

fun applyChanges :: "sceneChange list \<Rightarrow> manager \<Rightarrow> manager option" where
  "applyChanges [] s = Some s"
| "applyChanges (c # cs) s = do { s1 \<leftarrow> applyChange c s; applyChanges cs s1 }"

text \<open>What the base registry guarantees of a change: an object that is added is not
  registered yet and gets a free slot; an object that is removed is registered.\<close>

fun changeAllowed :: "sceneChange \<Rightarrow> manager \<Rightarrow> bool" where
  "changeAllowed (Added networkObject i v) s =
     (networkObject \<notin> set (trackedComponents s) \<and> GetNetworkObjectByIndex i s = None)"
| "changeAllowed (Removed networkObject) s = (networkObject \<in> set (trackedComponents s))"

fun changesAllowed :: "sceneChange list \<Rightarrow> manager \<Rightarrow> bool" where
  "changesAllowed [] s = True"
| "changesAllowed (c # cs) s =
     (changeAllowed c s \<and>
      (case applyChange c s of None \<Rightarrow> True | Some s1 \<Rightarrow> changesAllowed cs s1))"

text \<open>The objects added by a sequence of changes and not removed by it afterwards.\<close>

fun pendingStep :: "sceneChange \<Rightarrow> NetworkObject set \<Rightarrow> NetworkObject set" where
  "pendingStep (Added networkObject i v) P = insert networkObject P"
| "pendingStep (Removed networkObject) P = P - {networkObject}"

definition pendingObjects :: "sceneChange list \<Rightarrow> NetworkObject set" where
  "pendingObjects cs = fold pendingStep cs {}"

text \<open>The recently-added set holds, without repetition, exactly the NetworkIds of the
  objects of \<open>P\<close>, which are registered.\<close>

definition pendingMatches :: "manager \<Rightarrow> NetworkObject set \<Rightarrow> bool" where
  "pendingMatches s P =
     (distinct (recentlyAddedObjects s) \<and> set (recentlyAddedObjects s) = objectNetworkId s ` P \<and>
      P \<subseteq> set (trackedComponents s))"

subsection \<open>Object hierarchy\<close>




text \<open>Collaborators for the concrete instances: the connection reports the clock
  synchronized or not as \<open>synced\<close> says, a message's first byte is its magic token or
  clock, and removing an object's node detaches that object if it is registered.\<close>

definition env_example :: "bool \<Rightarrow> env" where
  "env_example synced =
     \<lparr>isClockSynchronized = (\<lambda>_. synced),
      readMsgConfigure = (\<lambda>d. \<lparr>magic = (case d of [] \<Rightarrow> 0 | m # _ \<Rightarrow> m), settings = []\<rparr>),
      readMsgSceneClock = (\<lambda>d. MsgSceneClock (case d of [] \<Rightarrow> 0 | m # _ \<Rightarrow> m)),
      replicaProcessMessage = (\<lambda>_ _ _. True),
      serverProcessMessage = (\<lambda>_ _ _ _. True),
      updateObjectHierarchy = (\<lambda>_ h. h),
      nodeExpired = (\<lambda>_ _. False),
      nodeComponents = (\<lambda>node s. if node \<in> set (trackedComponents s) then [node] else [])\<rparr>"


text \<open>A client bound to connection 3, in the middle of its handshake.\<close>

definition client_example :: manager where
  "client_example =
     (ReplicationManager_new 0)
       \<lparr>trackedComponents := [6], entries := [None, Some (1, 6)],
        objectNetworkId := (\<lambda>_. NetworkId_None)(6 := NetworkId 1 1),
        networkObjectsDirty := [False, True],
        mode := Client,
        client := Some \<lparr>connection = Some 3, serverSettings = Some [], initialClock = None,
                         ackMagic = Some 42, replica = None\<rparr>\<rparr>"

definition server_example :: manager where
  "server_example =
     (ReplicationManager_new 0)\<lparr>mode := Server, server := Some (ServerReplicator 0)\<rparr>"

text \<open>A client that has received the settings and the initial clock, on a connection
  whose clock is synchronized.\<close>

definition waiting_client_example :: ClientData where
  "waiting_client_example =
     \<lparr>connection = Some 3, serverSettings = Some [], initialClock = Some (MsgSceneClock 0),
      ackMagic = Some 42, replica = None\<rparr>"

text \<open>A standalone manager after one NetworkObject, 7, was added under the reference
  (0, 0).\<close>

definition one_object_example :: manager where
  "one_object_example = ReplicationManager_OnComponentAdded (0, 0) 7 (ReplicationManager_new 0)"

text \<open>A client bound to connection 3, as \<^verbatim>\<open>StartClient\<close> leaves it, and deliveries to
  it: a Configure and a SceneClock message while the clock is not synchronized, an unknown
  message, then a SceneClock and a Configure message once it is.\<close>

definition handshake_example :: manager where
  "handshake_example =
     (ReplicationManager_new 0)
       \<lparr>mode := Client,
        client := Some \<lparr>connection = Some 3, serverSettings = None, initialClock = None,
                         ackMagic = None, replica = None\<rparr>\<rparr>"

definition unsynced_deliveries :: "delivery list" where
  "unsynced_deliveries =
     [\<lparr>world = env_example False, sender = 3, msgId = MSG_CONFIGURE, msgData = [42]\<rparr>,
      \<lparr>world = env_example False, sender = 3, msgId = MSG_SCENE_CLOCK, msgData = [5]\<rparr>,
      \<lparr>world = env_example True, sender = 3, msgId = MSG_OTHER 9, msgData = []\<rparr>]"

definition completing_delivery :: delivery where
  "completing_delivery =
     \<lparr>world = env_example True, sender = 3, msgId = MSG_SCENE_CLOCK, msgData = [6]\<rparr>"

definition late_delivery :: delivery where
  "late_delivery =
     \<lparr>world = env_example True, sender = 3, msgId = MSG_CONFIGURE, msgData = [43]\<rparr>"

text \<open>Three objects added within one frame, one of them removed again before the
  tick.\<close>

definition three_added_one_removed :: "sceneChange list" where
  "three_added_one_removed = [Added 1 0 0, Added 2 1 0, Added 3 2 0, Removed 2]"






section \<open>Properties\<close>

declare UpdateNetworkObjects_from.simps [simp del]

subsection \<open>UpdateNetworkObjects\<close>

lemma refreshObject_dirty [simp]:
  "networkObjectsDirty (refreshObject E networkObject s) = networkObjectsDirty s"
  by (simp add: refreshObject_def Let_def)

lemma UpdateNetworkObjects_from_dirty:
  "networkObjectsDirty (UpdateNetworkObjects_from E i s) =
     take i (networkObjectsDirty s) @ replicate (length (networkObjectsDirty s) - i) False"
proof (induction E i s rule: UpdateNetworkObjects_from.induct)
  case (1 E index s)
  show ?case
  proof (cases "index < length (networkObjectsDirty s)")
    case False
    then show ?thesis by (simp add: UpdateNetworkObjects_from.simps[of E index s])
  next
    case inb: True
    show ?thesis
    proof (cases "networkObjectsDirty s ! index")
      case False
      with inb 1(1) have "networkObjectsDirty (UpdateNetworkObjects_from E index s) =
          take (Suc index) (networkObjectsDirty s) @
          replicate (length (networkObjectsDirty s) - Suc index) False"
        by (simp add: UpdateNetworkObjects_from.simps[of E index s])
      also have "\<dots> = take index (networkObjectsDirty s) @
          replicate (length (networkObjectsDirty s) - index) False"
      proof -
        have "length (networkObjectsDirty s) - index = Suc (length (networkObjectsDirty s) - Suc index)"
          using inb by arith
        then show ?thesis using inb False
          by (simp add: take_Suc_conv_app_nth replicate_app_Cons_same)
      qed
      finally show ?thesis .
    next
      case True
      define s1 where "s1 = (case GetNetworkObjectByIndex index s of
                        Some networkObject \<Rightarrow> refreshObject E networkObject s
                      | None \<Rightarrow> s)"
      have d1: "networkObjectsDirty s1 = networkObjectsDirty s"
        by (simp add: s1_def split: option.splits)
      have "networkObjectsDirty (UpdateNetworkObjects_from E index s) =
          networkObjectsDirty (UpdateNetworkObjects_from E (Suc index)
                 (s1\<lparr>networkObjectsDirty := (networkObjectsDirty s1)[index := False]\<rparr>))"
        using inb True by (simp add: UpdateNetworkObjects_from.simps[of E index s] s1_def Let_def)
      also have "\<dots> = take (Suc index) ((networkObjectsDirty s)[index := False]) @
          replicate (length (networkObjectsDirty s) - Suc index) False"
        using 1(2)[OF inb _ s1_def] True by (simp add: d1)
      also have "\<dots> = take index (networkObjectsDirty s) @
          replicate (length (networkObjectsDirty s) - index) False"
      proof -
        have "length (networkObjectsDirty s) - index = Suc (length (networkObjectsDirty s) - Suc index)"
          using inb by arith
        then show ?thesis using inb
          by (simp add: take_Suc_conv_app_nth replicate_app_Cons_same)
      qed
      finally show ?thesis .
    qed
  qed
qed

lemma UpdateNetworkObjects_from_clean:
  "\<forall>j. index \<le> j \<and> j < length (networkObjectsDirty s) \<longrightarrow> \<not> networkObjectsDirty s ! j
     \<Longrightarrow> UpdateNetworkObjects_from E index s = s"
proof (induction E index s rule: UpdateNetworkObjects_from.induct)
  case (1 E index s)
  show ?case
  proof (cases "index < length (networkObjectsDirty s)")
    case False
    then show ?thesis by (simp add: UpdateNetworkObjects_from.simps[of E index s])
  next
    case True
    with 1(3) have nd: "\<not> networkObjectsDirty s ! index" by simp
    have "UpdateNetworkObjects_from E (Suc index) s = s"
      using 1(1)[OF True nd] 1(3) by simp
    with True nd show ?thesis by (simp add: UpdateNetworkObjects_from.simps[of E index s])
  qed
qed

text \<open>C3: after \<^verbatim>\<open>UpdateNetworkObjects\<close> every entry of the dirty-flag vector is false,
  whether or not its index resolves to an object, and a second call right after (whatever
  the collaborators would do) leaves the whole state as the first call left it.\<close>

theorem update_clears_all_and_is_idempotent:
  "networkObjectsDirty (UpdateNetworkObjects E s) =
     replicate (length (networkObjectsDirty s)) False \<and>
   UpdateNetworkObjects E' (UpdateNetworkObjects E s) = UpdateNetworkObjects E s"
proof -
  have d: "networkObjectsDirty (UpdateNetworkObjects E s) =
     replicate (length (networkObjectsDirty s)) False"
    by (simp add: UpdateNetworkObjects_def UpdateNetworkObjects_from_dirty)
  have "UpdateNetworkObjects_from E' 0 (UpdateNetworkObjects E s) = UpdateNetworkObjects E s"
    by (rule UpdateNetworkObjects_from_clean) (simp add: d)
  with d show ?thesis by (simp add: UpdateNetworkObjects_def)
qed

subsection \<open>QueueNetworkObjectUpdate\<close>

lemma GetNetworkObject_SomeD:
  "GetNetworkObject nid True s = Some p \<Longrightarrow>
     \<exists>i v. nid = NetworkId i v \<and> i < length (entries s) \<and> entries s ! i = Some (v, p)"
  by (auto simp: GetNetworkObject_def GetTrackedComponentByReference_def
           split: NetworkId.splits option.splits if_splits)




subsection \<open>ProcessMessage and DropConnection\<close>

lemma pm_uninit_other:
  "client s = Some c \<Longrightarrow> replica c = None \<Longrightarrow>
   messageId \<noteq> MSG_CONFIGURE \<Longrightarrow> messageId \<noteq> MSG_SCENE_CLOCK \<Longrightarrow>
   ProcessMessage E conn messageId messageData s = Some (False, s)"
  by (simp add: ProcessMessage_def ProcessMessageOnUninitializedClient_def)

lemma pm_standalone:
  "client s = None \<Longrightarrow> server s = None \<Longrightarrow>
   ProcessMessage E conn messageId messageData s = Some (False, s)"
  by (simp add: ProcessMessage_def)

lemma initializeIfReady_handled:
  "initializeIfReady E conn c s = Some r \<Longrightarrow> fst r = True"
  by (auto simp: initializeIfReady_def split: if_splits option.splits)

lemma pm_uninit_known:
  "client s = Some c \<Longrightarrow> replica c = None \<Longrightarrow>
   messageId = MSG_CONFIGURE \<or> messageId = MSG_SCENE_CLOCK \<Longrightarrow>
   ProcessMessage E conn messageId messageData s = Some r \<Longrightarrow> fst r = True"
  by (auto simp: ProcessMessage_def ProcessMessageOnUninitializedClient_def Let_def
      dest: initializeIfReady_handled)

lemma pm_replica:
  "client s = Some c \<Longrightarrow> replica c = Some r \<Longrightarrow>
   ProcessMessage E conn messageId messageData s =
          Some (replicaProcessMessage E r messageId messageData,
                s\<lparr>calls := calls s @ [Replica_ProcessMessage messageId messageData]\<rparr>)"
  by (simp add: ProcessMessage_def)

lemma pm_server:
  "client s = None \<Longrightarrow> server s = Some sv \<Longrightarrow>
        ProcessMessage E conn messageId messageData s =
          Some (serverProcessMessage E sv conn messageId messageData,
                s\<lparr>calls := calls s @ [Server_ProcessMessage conn messageId messageData]\<rparr>)"
  by (simp add: ProcessMessage_def)

text \<open>C7: \<^verbatim>\<open>ProcessMessage\<close> returns false and leaves the manager as it was, without a
  fault, when the client has no replica yet and the message is neither Configure nor
  SceneClock, and when there is neither client nor server state. These are the only
  cases in which the manager itself answers false: a client without replica answers true
  to Configure and SceneClock, and in every other state the answer is the one of the
  client replica or of the server replicator the message is handed to.\<close>

theorem process_message_unhandled:
  "(\<forall>c. client s = Some c \<and> replica c = None \<and>
        messageId \<noteq> MSG_CONFIGURE \<and> messageId \<noteq> MSG_SCENE_CLOCK \<longrightarrow>
        ProcessMessage E conn messageId messageData s = Some (False, s)) \<and>
   (client s = None \<and> server s = None \<longrightarrow>
        ProcessMessage E conn messageId messageData s = Some (False, s)) \<and>
   (\<forall>c r. client s = Some c \<and> replica c = None \<and>
        (messageId = MSG_CONFIGURE \<or> messageId = MSG_SCENE_CLOCK) \<and>
        ProcessMessage E conn messageId messageData s = Some r \<longrightarrow> fst r = True) \<and>
   (\<forall>c r. client s = Some c \<and> replica c = Some r \<longrightarrow>
        ProcessMessage E conn messageId messageData s =
          Some (replicaProcessMessage E r messageId messageData,
                s\<lparr>calls := calls s @ [Replica_ProcessMessage messageId messageData]\<rparr>)) \<and>
   (\<forall>sv. client s = None \<and> server s = Some sv \<longrightarrow>
        ProcessMessage E conn messageId messageData s =
          Some (serverProcessMessage E sv conn messageId messageData,
                s\<lparr>calls := calls s @ [Server_ProcessMessage conn messageId messageData]\<rparr>))"
proof (intro conjI allI impI; elim conjE)
  fix c assume "client s = Some c" "replica c = None"
    "messageId \<noteq> MSG_CONFIGURE" "messageId \<noteq> MSG_SCENE_CLOCK"
  then show "ProcessMessage E conn messageId messageData s = Some (False, s)"
    by (rule pm_uninit_other)
next
  assume "client s = None" "server s = None"
  then show "ProcessMessage E conn messageId messageData s = Some (False, s)"
    by (rule pm_standalone)
next
  fix c r assume "client s = Some c" "replica c = None"
    "messageId = MSG_CONFIGURE \<or> messageId = MSG_SCENE_CLOCK"
    "ProcessMessage E conn messageId messageData s = Some r"
  then show "fst r = True" by (rule pm_uninit_known)
next
  fix c r assume "client s = Some c" "replica c = Some r"
  then show "ProcessMessage E conn messageId messageData s =
          Some (replicaProcessMessage E r messageId messageData,
                s\<lparr>calls := calls s @ [Replica_ProcessMessage messageId messageData]\<rparr>)"
    by (rule pm_replica)
next
  fix sv assume "client s = None" "server s = Some sv"
  then show "ProcessMessage E conn messageId messageData s =
          Some (serverProcessMessage E sv conn messageId messageData,
                s\<lparr>calls := calls s @ [Server_ProcessMessage conn messageId messageData]\<rparr>)"
    by (rule pm_server)
qed

theorem process_message_unhandled_witness:
  "ProcessMessage (env_example True) 3 (MSG_OTHER 9) [] client_example
     = Some (False, client_example) \<and>
   ProcessMessage (env_example True) 3 MSG_CONFIGURE [] (ReplicationManager_new 0)
     = Some (False, ReplicationManager_new 0) \<and>
   ProcessMessage (env_example True) 3 MSG_CONFIGURE [] server_example
     = Some (True, server_example\<lparr>calls := [Server_ProcessMessage 3 MSG_CONFIGURE []]\<rparr>)"
  using process_message_unhandled [of client_example "MSG_OTHER 9" "env_example True" 3 "[]"]
    process_message_unhandled [of "ReplicationManager_new 0" MSG_CONFIGURE "env_example True" 3 "[]"]
    process_message_unhandled [of server_example MSG_CONFIGURE "env_example True" 3 "[]"]
  by (simp add: client_example_def server_example_def ReplicationManager_new_def env_example_def)

lemma Stop_fields [simp]:
  "mode (Stop s) = Standalone" "client (Stop s) = None" "server (Stop s) = None"
  "recentlyAddedObjects (Stop s) = []" "trackedComponents (Stop s) = trackedComponents s"
  "calls (Stop s) = calls s" "networkObjectsDirty (Stop s) = networkObjectsDirty s"
  "entries (Stop s) = entries s" "scene (Stop s) = scene s"
  "objectNetworkId (Stop s) = objectNetworkId s"
  "parentNetworkObject (Stop s) = parentNetworkObject s"
  "childrenNetworkObjects (Stop s) = childrenNetworkObjects s"
  by (simp_all add: Stop_def Let_def)

lemma Stop_eq: "Stop s = s\<lparr>client := None, server := None, recentlyAddedObjects := [], mode := Standalone\<rparr>"
  by (simp add: Stop_def Let_def)

lemma drop_same:
  "server s = None \<Longrightarrow> client s = Some c \<Longrightarrow> connection c = conn \<Longrightarrow>
      DropConnection conn s = StartStandalone s"
  by (simp add: DropConnection_def)

lemma StartStandalone_fields:
  "mode (StartStandalone s) = Standalone" "client (StartStandalone s) = None"
  "server (StartStandalone s) = None" "recentlyAddedObjects (StartStandalone s) = []"
  "calls (StartStandalone s) = calls s @
        concat (map (\<lambda>networkObject. [SetNetworkMode networkObject Mode_Standalone,
                                       InitializeStandalone networkObject])
                    (trackedComponents s))"
  by (simp_all add: StartStandalone_def Let_def GetNetworkObjects_def)

lemma drop_other:
  "server s = None \<Longrightarrow> client s = Some c \<Longrightarrow> connection c \<noteq> conn \<Longrightarrow>
      DropConnection conn s = s"
  by (simp add: DropConnection_def)

lemma drop_server:
  "server s = Some sv \<Longrightarrow>
      DropConnection conn s = s\<lparr>calls := calls s @ [Server_RemoveConnection conn]\<rparr>"
  by (simp add: DropConnection_def)

text \<open>C10: without server state, \<^verbatim>\<open>DropConnection\<close> on the connection the client is bound
  to is \<^verbatim>\<open>StartStandalone\<close>: the client state (with any handshake in progress) is gone,
  the mode is Standalone, and every registered NetworkObject is set to standalone mode and
  initialized as standalone; on another connection the manager is unchanged. With server
  state the only effect is the call of the server replicator's \<^verbatim>\<open>RemoveConnection\<close>.\<close>

theorem drop_connection_cases:
  "(\<forall>c. server s = None \<and> client s = Some c \<and> connection c = conn \<longrightarrow>
      DropConnection conn s = StartStandalone s \<and>
      mode (StartStandalone s) = Standalone \<and>
      client (StartStandalone s) = None \<and>
      server (StartStandalone s) = None \<and>
      recentlyAddedObjects (StartStandalone s) = [] \<and>
      calls (StartStandalone s) = calls s @
        concat (map (\<lambda>networkObject. [SetNetworkMode networkObject Mode_Standalone,
                                       InitializeStandalone networkObject])
                    (trackedComponents s))) \<and>
   (\<forall>c. server s = None \<and> client s = Some c \<and> connection c \<noteq> conn \<longrightarrow>
      DropConnection conn s = s) \<and>
   (\<forall>sv. server s = Some sv \<longrightarrow>
      DropConnection conn s = s\<lparr>calls := calls s @ [Server_RemoveConnection conn]\<rparr>)"
  by (intro conjI allI impI; (elim conjE)?)
     (simp_all add: drop_same drop_other drop_server StartStandalone_fields)

theorem drop_connection_cases_witness:
  "DropConnection (Some 3) client_example = StartStandalone client_example \<and>
   client (StartStandalone client_example) = None \<and>
   calls (StartStandalone client_example)
     = [SetNetworkMode 6 Mode_Standalone, InitializeStandalone 6] \<and>
   DropConnection (Some 4) client_example = client_example \<and>
   DropConnection (Some 3) server_example
     = server_example\<lparr>calls := [Server_RemoveConnection (Some 3)]\<rparr>"
  using drop_connection_cases [of client_example "Some 3"]
    drop_connection_cases [of client_example "Some 4"]
    drop_connection_cases [of server_example "Some 3"]
  by (simp add: client_example_def server_example_def ReplicationManager_new_def)

subsection \<open>Debug information of the uninitialized client\<close>

lemma waitList_cases:
  "waitList E c =
     (if (case connection c of Some k \<Rightarrow> \<not> isClockSynchronized E k | None \<Rightarrow> False)
      then [''system clock''] else []) @
     (if serverSettings c = None then [''settings''] else []) @
     (if initialClock c = None \<or>
         (\<not> (case connection c of Some k \<Rightarrow> \<not> isClockSynchronized E k | None \<Rightarrow> False) \<and>
          serverSettings c \<noteq> None)
      then [''server scene time''] else [])"
  by (auto simp: waitList_def Let_def split: option.splits)

lemma formatted_sublist:
  "\<forall>a b c.
     (sublist ''system clock''
        (''Connecting... Waiting for '' @
         joined ((if a then [''system clock''] else []) @ (if b then [''settings''] else []) @
                 (if c \<or> (\<not> a \<and> \<not> b) then [''server scene time''] else [])) '', '' @ ''...'')
        \<longleftrightarrow> a) \<and>
     (sublist ''settings''
        (''Connecting... Waiting for '' @
         joined ((if a then [''system clock''] else []) @ (if b then [''settings''] else []) @
                 (if c \<or> (\<not> a \<and> \<not> b) then [''server scene time''] else [])) '', '' @ ''...'')
        \<longleftrightarrow> b) \<and>
     (sublist ''server scene time''
        (''Connecting... Waiting for '' @
         joined ((if a then [''system clock''] else []) @ (if b then [''settings''] else []) @
                 (if c \<or> (\<not> a \<and> \<not> b) then [''server scene time''] else [])) '', '' @ ''...'')
        \<longleftrightarrow> c \<or> (\<not> a \<and> \<not> b))"
  by code_simp

text \<open>C8, as stated, fails: with the clock synchronized and both the settings and the
  initial clock received, nothing is outstanding, yet the string names the server scene
  time.\<close>

theorem debug_info_scene_time_counterexample:
  "initialClock waiting_client_example \<noteq> None \<and>
   GetUninitializedClientDebugInfo (env_example True) waiting_client_example
     = ''Connecting... Waiting for server scene time...'' \<and>
   sublist ''server scene time''
     (GetUninitializedClientDebugInfo (env_example True) waiting_client_example)"
proof -
  have str: "GetUninitializedClientDebugInfo (env_example True) waiting_client_example
     = ''Connecting... Waiting for server scene time...''"
    by (simp add: GetUninitializedClientDebugInfo_def waitList_def waiting_client_example_def
        env_example_def)
  have sub: "sublist ''server scene time'' ''Connecting... Waiting for server scene time...''"
    by code_simp
  have "initialClock waiting_client_example \<noteq> None"
    by (simp add: waiting_client_example_def)
  with str sub show ?thesis by simp
qed

text \<open>C8, amended: the string contains "system clock" iff the client's connection is
  alive and reports its clock unsynchronized; "settings" iff no settings bundle has been
  received; "server scene time" iff no initial clock snapshot has been received or neither
  of the other two items is listed.\<close>

theorem debug_info_lists_outstanding:
  "(sublist ''system clock'' (GetUninitializedClientDebugInfo E c) \<longleftrightarrow>
      (case connection c of Some k \<Rightarrow> \<not> isClockSynchronized E k | None \<Rightarrow> False)) \<and>
   (sublist ''settings'' (GetUninitializedClientDebugInfo E c) \<longleftrightarrow> serverSettings c = None) \<and>
   (sublist ''server scene time'' (GetUninitializedClientDebugInfo E c) \<longleftrightarrow>
      initialClock c = None \<or>
      (\<not> (case connection c of Some k \<Rightarrow> \<not> isClockSynchronized E k | None \<Rightarrow> False) \<and>
       serverSettings c \<noteq> None))"
  unfolding GetUninitializedClientDebugInfo_def waitList_cases
  using formatted_sublist [rule_format,
      of "case connection c of Some k \<Rightarrow> \<not> isClockSynchronized E k | None \<Rightarrow> False"
         "serverSettings c = None" "initialClock c = None"]
  by simp

subsection \<open>Dirty flags across the operations\<close>

lemma dirtyFlagsKept_refl [simp]: "dirtyFlagsKept s s"
  by (simp add: dirtyFlagsKept_def)

lemma dirtyFlagsKept_same: "networkObjectsDirty s' = networkObjectsDirty s \<Longrightarrow> dirtyFlagsKept s s'"
  by (simp add: dirtyFlagsKept_def)

lemma dirtyFlagsKept_trans: "dirtyFlagsKept s t \<Longrightarrow> dirtyFlagsKept t u \<Longrightarrow> dirtyFlagsKept s u"
  by (auto simp: dirtyFlagsKept_def)

lemma registry_added_dirty:
  "networkObjectsDirty (NetworkObjectRegistry_OnComponentAdded ref networkObject s) =
     (let d = networkObjectsDirty s; index = fst ref in
      (if length d \<le> index then d @ replicate (index + 1 - length d) False else d)[index := True])"
  by (simp add: NetworkObjectRegistry_OnComponentAdded_def Base_OnComponentAdded_def Let_def)

lemma registry_added_kept:
  "dirtyFlagsKept s (NetworkObjectRegistry_OnComponentAdded ref networkObject s)"
  by (auto simp: dirtyFlagsKept_def registry_added_dirty Let_def nth_list_update nth_append)

lemma manager_added_dirty:
  "networkObjectsDirty (ReplicationManager_OnComponentAdded ref networkObject s) =
   networkObjectsDirty (NetworkObjectRegistry_OnComponentAdded ref networkObject s)"
  by (simp add: ReplicationManager_OnComponentAdded_def Let_def)

lemma manager_added_kept:
  "dirtyFlagsKept s (ReplicationManager_OnComponentAdded ref networkObject s)"
  using registry_added_kept[of s ref networkObject]
  by (simp add: dirtyFlagsKept_def manager_added_dirty)

lemma queue_result:
  "QueueNetworkObjectUpdate p s = Some s' \<Longrightarrow>
     s' = s \<or> (refIndex (objectNetworkId s p) < length (networkObjectsDirty s) \<and>
       s' = s\<lparr>networkObjectsDirty :=
                (networkObjectsDirty s)[refIndex (objectNetworkId s p) := True]\<rparr>)"
  by (auto simp: QueueNetworkObjectUpdate_def Let_def split: if_splits)

lemma queue_kept: "QueueNetworkObjectUpdate p s = Some s' \<Longrightarrow> dirtyFlagsKept s s'"
  by (drule queue_result) (auto simp: dirtyFlagsKept_def nth_list_update)

lemma queue_frame:
  assumes "QueueNetworkObjectUpdate p s = Some s'"
  shows "mode s' = mode s" "client s' = client s" "server s' = server s"
    "recentlyAddedObjects s' = recentlyAddedObjects s" "entries s' = entries s"
    "trackedComponents s' = trackedComponents s" "objectNetworkId s' = objectNetworkId s"
    "length (networkObjectsDirty s') = length (networkObjectsDirty s)"
    "scene s' = scene s"
  using queue_result[OF assms] by auto

lemma queue_defined:
  assumes "dirtyCoversEntries s"
  shows "\<exists>s'. QueueNetworkObjectUpdate p s = Some s'"
proof (cases "GetNetworkObject (objectNetworkId s p) True s = Some p")
  case False
  then show ?thesis by (simp add: QueueNetworkObjectUpdate_def Let_def)
next
  case True
  then obtain i v where iv: "objectNetworkId s p = NetworkId i v" "i < length (entries s)"
      "entries s ! i = Some (v, p)"
    using GetNetworkObject_SomeD by blast
  with assms have "i < length (networkObjectsDirty s)"
    by (auto simp: dirtyCoversEntries_def)
  with True iv show ?thesis by (simp add: QueueNetworkObjectUpdate_def Let_def)
qed

lemma queue_covers:
  "QueueNetworkObjectUpdate p s = Some s' \<Longrightarrow> dirtyCoversEntries s \<Longrightarrow> dirtyCoversEntries s'"
  by (drule queue_result) (auto simp: dirtyCoversEntries_def)

lemma Base_removed_fields [simp]:
  "mode (Base_OnComponentRemoved c s) = mode s"
  "client (Base_OnComponentRemoved c s) = client s"
  "server (Base_OnComponentRemoved c s) = server s"
  "recentlyAddedObjects (Base_OnComponentRemoved c s) = recentlyAddedObjects s"
  "networkObjectsDirty (Base_OnComponentRemoved c s) = networkObjectsDirty s"
  "scene (Base_OnComponentRemoved c s) = scene s"
  "objectNetworkId (Base_OnComponentRemoved c s) = objectNetworkId s"
  "trackedComponents (Base_OnComponentRemoved c s) = removeAll c (trackedComponents s)"
  by (simp_all add: Base_OnComponentRemoved_def)

lemma Base_removed_covers:
  "dirtyCoversEntries s \<Longrightarrow> dirtyCoversEntries (Base_OnComponentRemoved c s)"
  by (auto simp: dirtyCoversEntries_def Base_OnComponentRemoved_def split: option.splits)

lemma registry_removed_cases:
  assumes "NetworkObjectRegistry_OnComponentRemoved networkObject s = Some s'"
  obtains s1 where "s1 = s \<or> (\<exists>p. QueueNetworkObjectUpdate p s = Some s1)"
    "s' = Base_OnComponentRemoved networkObject
               (s1\<lparr>calls := calls s1 @ [Signal_OnNetworkObjectRemoved networkObject]\<rparr>)"
  using assms
  by (auto simp: NetworkObjectRegistry_OnComponentRemoved_def
      split: option.splits if_splits bind_splits)

lemma registry_removed_frame:
  assumes "NetworkObjectRegistry_OnComponentRemoved networkObject s = Some s'"
  shows "mode s' = mode s" "client s' = client s" "server s' = server s"
    "recentlyAddedObjects s' = recentlyAddedObjects s"
    "length (networkObjectsDirty s') = length (networkObjectsDirty s)"
    "scene s' = scene s" "objectNetworkId s' = objectNetworkId s"
    "trackedComponents s' = removeAll networkObject (trackedComponents s)"
    "dirtyFlagsKept s s'"
    "dirtyCoversEntries s \<Longrightarrow> dirtyCoversEntries s'"
proof -
  obtain s1 where s1: "s1 = s \<or> (\<exists>p. QueueNetworkObjectUpdate p s = Some s1)"
    and s': "s' = Base_OnComponentRemoved networkObject
               (s1\<lparr>calls := calls s1 @ [Signal_OnNetworkObjectRemoved networkObject]\<rparr>)"
    using assms by (rule registry_removed_cases)
  from s1 have f: "mode s1 = mode s" "client s1 = client s" "server s1 = server s"
    "recentlyAddedObjects s1 = recentlyAddedObjects s"
    "length (networkObjectsDirty s1) = length (networkObjectsDirty s)"
    "scene s1 = scene s" "objectNetworkId s1 = objectNetworkId s"
    "trackedComponents s1 = trackedComponents s"
    "dirtyFlagsKept s s1" "dirtyCoversEntries s \<Longrightarrow> dirtyCoversEntries s1"
    by (auto dest: queue_frame queue_kept queue_covers)
  show "mode s' = mode s" "client s' = client s" "server s' = server s"
    "recentlyAddedObjects s' = recentlyAddedObjects s"
    "length (networkObjectsDirty s') = length (networkObjectsDirty s)"
    "scene s' = scene s" "objectNetworkId s' = objectNetworkId s"
    "trackedComponents s' = removeAll networkObject (trackedComponents s)"
    using f by (simp_all add: s')
  show "dirtyFlagsKept s s'"
    using f(9) by (simp add: s' dirtyFlagsKept_def)
  show "dirtyCoversEntries s'" if "dirtyCoversEntries s"
  proof -
    from that f(10) have "dirtyCoversEntries s1" by simp
    then have "dirtyCoversEntries
       (s1\<lparr>calls := calls s1 @ [Signal_OnNetworkObjectRemoved networkObject]\<rparr>)"
      by (simp add: dirtyCoversEntries_def)
    then show ?thesis unfolding s' by (rule Base_removed_covers)
  qed
qed

lemma registry_removed_defined:
  assumes "dirtyCoversEntries s"
  shows "\<exists>s'. NetworkObjectRegistry_OnComponentRemoved networkObject s = Some s'"
proof (cases "parentNetworkObject s networkObject")
  case None
  then show ?thesis by (simp add: NetworkObjectRegistry_OnComponentRemoved_def)
next
  case (Some p)
  obtain s1 where "QueueNetworkObjectUpdate p s = Some s1"
    using queue_defined[OF assms] by blast
  with Some show ?thesis by (simp add: NetworkObjectRegistry_OnComponentRemoved_def)
qed

lemma manager_removed_frame:
  assumes "ReplicationManager_OnComponentRemoved networkObject s = Some s'"
  shows "mode s' = mode s" "client s' = client s" "server s' = server s"
    "mode s \<noteq> Standalone \<Longrightarrow> recentlyAddedObjects s' = recentlyAddedObjects s"
    "length (networkObjectsDirty s') = length (networkObjectsDirty s)"
    "scene s' = scene s" "objectNetworkId s' = objectNetworkId s"
    "trackedComponents s' = removeAll networkObject (trackedComponents s)"
    "dirtyFlagsKept s s'"
    "dirtyCoversEntries s \<Longrightarrow> dirtyCoversEntries s'"
proof -
  define s0 where "s0 = (if IsStandalone s
                then s\<lparr>recentlyAddedObjects :=
                         removeAll (objectNetworkId s networkObject) (recentlyAddedObjects s)\<rparr>
                else s)"
  have r: "NetworkObjectRegistry_OnComponentRemoved networkObject s0 = Some s'"
    using assms by (simp add: ReplicationManager_OnComponentRemoved_def s0_def Let_def)
  have k: "dirtyFlagsKept s s0" "dirtyCoversEntries s \<Longrightarrow> dirtyCoversEntries s0"
    by (simp_all add: s0_def dirtyFlagsKept_def dirtyCoversEntries_def)
  show "mode s' = mode s" "client s' = client s" "server s' = server s"
    "length (networkObjectsDirty s') = length (networkObjectsDirty s)"
    "scene s' = scene s" "objectNetworkId s' = objectNetworkId s"
    "trackedComponents s' = removeAll networkObject (trackedComponents s)"
    using registry_removed_frame(1-3,5-8)[OF r] by (simp_all add: s0_def)
  show "recentlyAddedObjects s' = recentlyAddedObjects s" if "mode s \<noteq> Standalone"
    using registry_removed_frame(4)[OF r] that by (simp add: s0_def IsStandalone_def)
  show "dirtyFlagsKept s s'"
    using k(1) registry_removed_frame(9)[OF r] by (rule dirtyFlagsKept_trans)
  show "dirtyCoversEntries s'" if "dirtyCoversEntries s"
    using registry_removed_frame(10)[OF r] k(2) that by simp
qed

lemma manager_removed_defined:
  assumes "dirtyCoversEntries s"
  shows "\<exists>s'. ReplicationManager_OnComponentRemoved networkObject s = Some s'"
proof -
  have "dirtyCoversEntries (if IsStandalone s
                then s\<lparr>recentlyAddedObjects :=
                         removeAll (objectNetworkId s networkObject) (recentlyAddedObjects s)\<rparr>
                else s)"
    using assms by (simp add: dirtyCoversEntries_def)
  then show ?thesis
    unfolding ReplicationManager_OnComponentRemoved_def Let_def
    by (rule registry_removed_defined)
qed

lemma removeComponents_frame:
  "removeComponents os s = Some s' \<Longrightarrow>
     mode s' = mode s \<and> client s' = client s \<and> server s' = server s \<and> scene s' = scene s \<and>
     (mode s \<noteq> Standalone \<longrightarrow> recentlyAddedObjects s' = recentlyAddedObjects s) \<and>
     dirtyFlagsKept s s' \<and> (dirtyCoversEntries s \<longrightarrow> dirtyCoversEntries s')"
proof (induction os arbitrary: s)
  case Nil
  then show ?case by simp
next
  case (Cons a os)
  from Cons.prems obtain s1 where
    a: "ReplicationManager_OnComponentRemoved a s = Some s1" and
    b: "removeComponents os s1 = Some s'"
    by (auto split: bind_splits)
  from Cons.IH[OF b] manager_removed_frame[OF a] show ?case
    by (auto intro: dirtyFlagsKept_trans)
qed

lemma removeComponents_defined:
  "dirtyCoversEntries s \<Longrightarrow> \<exists>s'. removeComponents os s = Some s'"
proof (induction os arbitrary: s)
  case Nil
  then show ?case by simp
next
  case (Cons a os)
  obtain s1 where a: "ReplicationManager_OnComponentRemoved a s = Some s1"
    using manager_removed_defined[OF Cons.prems] by blast
  with Cons.prems have "dirtyCoversEntries s1" by (simp add: manager_removed_frame(10))
  from Cons.IH[OF this] a show ?case by simp
qed

lemma Node_Remove_frame:
  assumes "Node_Remove E node s = Some s'"
  shows "mode s' = mode s \<and> client s' = client s \<and> server s' = server s \<and> scene s' = scene s \<and>
     (mode s \<noteq> Standalone \<longrightarrow> recentlyAddedObjects s' = recentlyAddedObjects s) \<and>
     dirtyFlagsKept s s' \<and> (dirtyCoversEntries s \<longrightarrow> dirtyCoversEntries s')"
  using removeComponents_frame[OF assms[unfolded Node_Remove_def]]
  by (simp add: dirtyFlagsKept_def dirtyCoversEntries_def)

lemma Node_Remove_defined:
  "dirtyCoversEntries s \<Longrightarrow> \<exists>s'. Node_Remove E node s = Some s'"
  unfolding Node_Remove_def
  by (rule removeComponents_defined) (simp add: dirtyCoversEntries_def)

lemma removeNodes_frame:
  "removeNodes E nodes s = Some s' \<Longrightarrow>
     mode s' = mode s \<and> client s' = client s \<and> server s' = server s \<and> scene s' = scene s \<and>
     (mode s \<noteq> Standalone \<longrightarrow> recentlyAddedObjects s' = recentlyAddedObjects s) \<and>
     dirtyFlagsKept s s' \<and> (dirtyCoversEntries s \<longrightarrow> dirtyCoversEntries s')"
proof (induction nodes arbitrary: s)
  case Nil
  then show ?case by simp
next
  case (Cons a nodes)
  from Cons.prems obtain s1 where
    a: "s1 = s \<or> Node_Remove E a s = Some s1" and
    b: "removeNodes E nodes s1 = Some s'"
    by (auto split: bind_splits if_splits)
  from a have "mode s1 = mode s \<and> client s1 = client s \<and> server s1 = server s \<and> scene s1 = scene s \<and>
     (mode s \<noteq> Standalone \<longrightarrow> recentlyAddedObjects s1 = recentlyAddedObjects s) \<and>
     dirtyFlagsKept s s1 \<and> (dirtyCoversEntries s \<longrightarrow> dirtyCoversEntries s1)"
    using Node_Remove_frame by auto
  with Cons.IH[OF b] show ?case
    by (auto intro: dirtyFlagsKept_trans)
qed

lemma removeNodes_defined:
  "dirtyCoversEntries s \<Longrightarrow> \<exists>s'. removeNodes E nodes s = Some s'"
proof (induction nodes arbitrary: s)
  case Nil
  then show ?case by simp
next
  case (Cons a nodes)
  show ?case
  proof (cases "nodeExpired E a s")
    case True
    with Cons.IH[OF Cons.prems] show ?thesis by simp
  next
    case False
    obtain s1 where a: "Node_Remove E a s = Some s1"
      using Node_Remove_defined[OF Cons.prems] by blast
    with Cons.prems have "dirtyCoversEntries s1" using Node_Remove_frame by blast
    from Cons.IH[OF this] a False show ?thesis by simp
  qed
qed

lemma RemoveAll_result:
  assumes "RemoveAllNetworkObjects E s = Some s'"
  shows "networkObjectsDirty s' = []" "mode s' = mode s" "client s' = client s"
    "server s' = server s" "scene s' = scene s"
    "mode s \<noteq> Standalone \<Longrightarrow> recentlyAddedObjects s' = recentlyAddedObjects s"
proof -
  from assms obtain s1 where a: "removeNodes E (GetNetworkObjects s) s = Some s1"
    and b: "s' = s1\<lparr>networkObjectsDirty := []\<rparr>"
    by (auto simp: RemoveAllNetworkObjects_def split: bind_splits)
  from removeNodes_frame[OF a] b
  show "networkObjectsDirty s' = []" "mode s' = mode s" "client s' = client s"
    "server s' = server s" "scene s' = scene s"
    "mode s \<noteq> Standalone \<Longrightarrow> recentlyAddedObjects s' = recentlyAddedObjects s"
    by simp_all
qed

lemma RemoveAll_defined:
  "dirtyCoversEntries s \<Longrightarrow> \<exists>s'. RemoveAllNetworkObjects E s = Some s'"
  using removeNodes_defined[of s E "GetNetworkObjects s"]
  by (auto simp: RemoveAllNetworkObjects_def)

lemma StartClient_result:
  assumes "StartClient E k s = Some s'"
  shows "networkObjectsDirty s' = []" "mode s' = Client" "server s' = None" "scene s' = scene s"
    "client s' = Some \<lparr>connection = k, serverSettings = None,
                                  initialClock = None, ackMagic = None, replica = None\<rparr>"
    "recentlyAddedObjects s' = []"
  using RemoveAll_result[OF assms[unfolded StartClient_def Let_def]]
  by simp_all

lemma StartClient_defined:
  "dirtyCoversEntries s \<Longrightarrow> \<exists>s'. StartClient E k s = Some s'"
  unfolding StartClient_def Let_def
  by (rule RemoveAll_defined) (simp add: dirtyCoversEntries_def)


lemma initializeEach_frame:
  "networkObjectsDirty (initializeEach ids s) = networkObjectsDirty s \<and>
   recentlyAddedObjects (initializeEach ids s) = recentlyAddedObjects s \<and>
   mode (initializeEach ids s) = mode s \<and> client (initializeEach ids s) = client s \<and>
   server (initializeEach ids s) = server s \<and> entries (initializeEach ids s) = entries s \<and>
   trackedComponents (initializeEach ids s) = trackedComponents s \<and>
   scene (initializeEach ids s) = scene s"
  by (induction ids arbitrary: s)
     (auto simp: GetNetworkObject_def GetTrackedComponentByReference_def split: option.splits)

lemma InitializeObjectsStandalone_dirty:
  "networkObjectsDirty (InitializeObjectsStandalone s) = networkObjectsDirty s"
  by (simp add: InitializeObjectsStandalone_def initializeEach_frame)

lemma HandleSceneUpdate_dirty:
  "HandleSceneUpdate ev dt s = Some s' \<Longrightarrow> networkObjectsDirty s' = networkObjectsDirty s"
  by (auto simp: HandleSceneUpdate_def InitializeObjectsStandalone_dirty Let_def
      split: ReplicationManagerMode.splits option.splits if_splits)

lemma UpdateNetworkObjects_dirty:
  "networkObjectsDirty (UpdateNetworkObjects E s) =
     replicate (length (networkObjectsDirty s)) False"
  by (simp add: UpdateNetworkObjects_def UpdateNetworkObjects_from_dirty)

lemma OnScenePostUpdate_dirty:
  "OnScenePostUpdate E dt s = Some s' \<Longrightarrow>
     networkObjectsDirty s' = replicate (length (networkObjectsDirty s)) False"
  by (auto simp: OnScenePostUpdate_def UpdateNetworkObjects_dirty
      dest: HandleSceneUpdate_dirty split: bind_splits)

lemma initializeIfReady_dirty:
  "initializeIfReady E conn c s = Some r \<Longrightarrow> networkObjectsDirty (snd r) = networkObjectsDirty s"
  by (auto simp: initializeIfReady_def split: if_splits option.splits)

lemma ProcessMessage_dirty:
  "ProcessMessage E conn messageId messageData s = Some r \<Longrightarrow>
     networkObjectsDirty (snd r) = networkObjectsDirty s"
  by (auto simp: ProcessMessage_def ProcessMessageOnUninitializedClient_def Let_def
      dest: initializeIfReady_dirty split: option.splits if_splits)

lemma Start_dirty:
  "networkObjectsDirty (StartStandalone s) = networkObjectsDirty s"
  "networkObjectsDirty (StartServer s) = networkObjectsDirty s"
  by (simp_all add: StartStandalone_def StartServer_def Let_def)

lemma DropConnection_dirty:
  "networkObjectsDirty (DropConnection conn s) = networkObjectsDirty s"
  by (simp add: DropConnection_def Start_dirty split: option.splits)

text \<open>C4, amended: a set dirty flag is taken away only by \<^verbatim>\<open>UpdateNetworkObjects\<close>
  (which the post-update tick runs) and by \<^verbatim>\<open>RemoveAllNetworkObjects\<close> (which
  \<^verbatim>\<open>StartClient\<close> runs), which empties the vector. Every other operation of the
  registry and of the manager keeps each set flag set.\<close>

theorem dirty_flags_clearing_points:
  "networkObjectsDirty (UpdateNetworkObjects E s) =
     replicate (length (networkObjectsDirty s)) False \<and>
   (\<forall>s'. OnScenePostUpdate E timeStep s = Some s' \<longrightarrow>
      networkObjectsDirty s' = replicate (length (networkObjectsDirty s)) False) \<and>
   (\<forall>s'. RemoveAllNetworkObjects E s = Some s' \<longrightarrow> networkObjectsDirty s' = []) \<and>
   (\<forall>s'. StartClient E connectionToServer s = Some s' \<longrightarrow> networkObjectsDirty s' = []) \<and>
   dirtyFlagsKept s (NetworkObjectRegistry_OnComponentAdded ref networkObject s) \<and>
   dirtyFlagsKept s (ReplicationManager_OnComponentAdded ref networkObject s) \<and>
   (\<forall>s'. QueueNetworkObjectUpdate networkObject s = Some s' \<longrightarrow> dirtyFlagsKept s s') \<and>
   (\<forall>s'. NetworkObjectRegistry_OnComponentRemoved networkObject s = Some s' \<longrightarrow>
      dirtyFlagsKept s s') \<and>
   (\<forall>s'. ReplicationManager_OnComponentRemoved networkObject s = Some s' \<longrightarrow>
      dirtyFlagsKept s s') \<and>
   networkObjectsDirty (Stop s) = networkObjectsDirty s \<and>
   networkObjectsDirty (StartStandalone s) = networkObjectsDirty s \<and>
   networkObjectsDirty (StartServer s) = networkObjectsDirty s \<and>
   networkObjectsDirty (DropConnection conn s) = networkObjectsDirty s \<and>
   networkObjectsDirty (InitializeObjectsStandalone s) = networkObjectsDirty s \<and>
   (\<forall>s'. OnSceneUpdate timeStep s = Some s' \<longrightarrow>
      networkObjectsDirty s' = networkObjectsDirty s) \<and>
   (\<forall>r. ProcessMessage E c messageId messageData s = Some r \<longrightarrow>
      networkObjectsDirty (snd r) = networkObjectsDirty s)"
proof (intro conjI allI impI)
  show "networkObjectsDirty (UpdateNetworkObjects E s) =
     replicate (length (networkObjectsDirty s)) False"
    by (rule UpdateNetworkObjects_dirty)
  show "dirtyFlagsKept s (NetworkObjectRegistry_OnComponentAdded ref networkObject s)"
    by (rule registry_added_kept)
  show "dirtyFlagsKept s (ReplicationManager_OnComponentAdded ref networkObject s)"
    by (rule manager_added_kept)
  show "networkObjectsDirty (Stop s) = networkObjectsDirty s" by simp
  show "networkObjectsDirty (StartStandalone s) = networkObjectsDirty s" by (rule Start_dirty)
  show "networkObjectsDirty (StartServer s) = networkObjectsDirty s" by (rule Start_dirty)
  show "networkObjectsDirty (DropConnection conn s) = networkObjectsDirty s"
    by (rule DropConnection_dirty)
  show "networkObjectsDirty (InitializeObjectsStandalone s) = networkObjectsDirty s"
    by (rule InitializeObjectsStandalone_dirty)
next
  fix s' assume "OnScenePostUpdate E timeStep s = Some s'"
  then show "networkObjectsDirty s' = replicate (length (networkObjectsDirty s)) False"
    by (rule OnScenePostUpdate_dirty)
next
  fix s' assume "RemoveAllNetworkObjects E s = Some s'"
  then show "networkObjectsDirty s' = []" by (rule RemoveAll_result)
next
  fix s' assume "StartClient E connectionToServer s = Some s'"
  then show "networkObjectsDirty s' = []" by (rule StartClient_result)
next
  fix s' assume "QueueNetworkObjectUpdate networkObject s = Some s'"
  then show "dirtyFlagsKept s s'" by (rule queue_kept)
next
  fix s' assume "NetworkObjectRegistry_OnComponentRemoved networkObject s = Some s'"
  then show "dirtyFlagsKept s s'" by (rule registry_removed_frame)
next
  fix s' assume "ReplicationManager_OnComponentRemoved networkObject s = Some s'"
  then show "dirtyFlagsKept s s'" by (rule manager_removed_frame)
next
  fix s' assume "OnSceneUpdate timeStep s = Some s'"
  then show "networkObjectsDirty s' = networkObjectsDirty s"
    unfolding OnSceneUpdate_def by (rule HandleSceneUpdate_dirty)
next
  fix r assume "ProcessMessage E c messageId messageData s = Some r"
  then show "networkObjectsDirty (snd r) = networkObjectsDirty s"
    by (rule ProcessMessage_dirty)
qed

subsection \<open>Concrete runs on the one-object manager\<close>

lemma one_object_example_eq:
  "one_object_example =
     (ReplicationManager_new 0)
       \<lparr>trackedComponents := [7], entries := [Some (0, 7)],
        objectNetworkId := (\<lambda>_. NetworkId_None)(7 := NetworkId 0 0),
        networkObjectsDirty := [True],
        recentlyAddedObjects := [NetworkId 0 0],
        calls := [Signal_OnNetworkObjectAdded 7]\<rparr>"
  by (simp add: one_object_example_def ReplicationManager_OnComponentAdded_def
      NetworkObjectRegistry_OnComponentAdded_def Base_OnComponentAdded_def
      ReplicationManager_new_def IsStandalone_def Let_def)

lemma one_object_remove_all:
  "map_option networkObjectsDirty (RemoveAllNetworkObjects (env_example True) one_object_example)
     = Some []"
  by (simp add: one_object_example_eq RemoveAllNetworkObjects_def GetNetworkObjects_def
      Node_Remove_def ReplicationManager_OnComponentRemoved_def
      NetworkObjectRegistry_OnComponentRemoved_def Base_OnComponentRemoved_def
      ReplicationManager_new_def IsStandalone_def env_example_def Let_def)

text \<open>C4, as stated, fails: \<^verbatim>\<open>RemoveAllNetworkObjects\<close>, and \<^verbatim>\<open>StartClient\<close> through it,
  discard a set dirty flag.\<close>

theorem remove_all_clears_flags_counterexample:
  "networkObjectsDirty one_object_example = [True] \<and>
   map_option networkObjectsDirty (RemoveAllNetworkObjects (env_example True) one_object_example)
     = Some [] \<and>
   map_option networkObjectsDirty (StartClient (env_example True) (Some 3) one_object_example)
     = Some []"
proof -
  have a: "networkObjectsDirty one_object_example = [True]"
    by (simp add: one_object_example_eq)
  have c: "map_option networkObjectsDirty (StartClient (env_example True) (Some 3) one_object_example)
     = Some []"
    by (simp add: one_object_example_eq StartClient_def Stop_eq
      RemoveAllNetworkObjects_def GetNetworkObjects_def
      Node_Remove_def ReplicationManager_OnComponentRemoved_def
      NetworkObjectRegistry_OnComponentRemoved_def Base_OnComponentRemoved_def
      ReplicationManager_new_def IsStandalone_def env_example_def Let_def)
  from a one_object_remove_all c show ?thesis by simp
qed

theorem dirty_flags_clearing_points_witness:
  "networkObjectsDirty (UpdateNetworkObjects (env_example True) one_object_example) = [False] \<and>
   dirtyFlagsKept one_object_example
     (ReplicationManager_OnComponentAdded (1, 0) 8 one_object_example) \<and>
   networkObjectsDirty (StartServer one_object_example) = [True]"
  using dirty_flags_clearing_points [of "env_example True" one_object_example 0 None "(1, 0)" 8 None 0 MSG_CONFIGURE "[]"]
  by (simp add: one_object_example_eq)


subsection \<open>Mode transitions\<close>

lemma Stop_Stop: "Stop (Stop s) = Stop s"
  by (simp add: Stop_eq)

lemma Stop_repeated: "(Stop ^^ Suc n) s = Stop s"
  by (induction n) (simp_all add: Stop_Stop)

lemma Start_after_Stop:
  "StartServer (Stop s) = StartServer s" "StartStandalone (Stop s) = StartStandalone s"
  "StartClient E k (Stop s) = StartClient E k s"
  by (simp_all add: StartServer_def StartStandalone_def StartClient_def Stop_Stop)

lemma StartServer_fields:
  "mode (StartServer s) = Server" "client (StartServer s) = None"
  "server (StartServer s) = Some (ServerReplicator (scene s))"
  "recentlyAddedObjects (StartServer s) = []"
  by (simp_all add: StartServer_def Let_def)

lemma new_scene [simp]: "scene (ReplicationManager_new sc) = sc"
  by (simp add: ReplicationManager_new_def)

text \<open>C5: after \<^verbatim>\<open>StartServer\<close> the client state is null and the server state is not;
  after \<^verbatim>\<open>StartClient\<close> (which returns in every registry whose dirty flags cover its
  slots) it is the other way round; after one or more \<^verbatim>\<open>Stop\<close> in a row the mode is
  Standalone, client and server state are null and the standalone bookkeeping is empty,
  and the state is the one after a single \<^verbatim>\<open>Stop\<close>. A \<^verbatim>\<open>Stop\<close> before any start changes
  nothing, and the mode state after the start (mode, client state, server state and
  standalone bookkeeping) is the one of the same start on a freshly constructed manager
  of the same scene.\<close>

theorem mode_transitions_exclusive:
  "client (StartServer s) = None \<and> server (StartServer s) \<noteq> None \<and>
   mode (StartServer s) = Server \<and>
   (\<forall>s'. StartClient E k s = Some s' \<longrightarrow>
      server s' = None \<and> client s' \<noteq> None \<and> mode s' = Client) \<and>
   (dirtyCoversEntries s \<longrightarrow> StartClient E k s \<noteq> None) \<and>
   mode ((Stop ^^ Suc n) s) = Standalone \<and> client ((Stop ^^ Suc n) s) = None \<and>
   server ((Stop ^^ Suc n) s) = None \<and> recentlyAddedObjects ((Stop ^^ Suc n) s) = [] \<and>
   (Stop ^^ Suc n) s = Stop s \<and>
   StartServer (Stop s) = StartServer s \<and> StartStandalone (Stop s) = StartStandalone s \<and>
   StartClient E k (Stop s) = StartClient E k s \<and>
   mode (StartServer (Stop s)) = mode (StartServer (ReplicationManager_new (scene s))) \<and>
   client (StartServer (Stop s)) = client (StartServer (ReplicationManager_new (scene s))) \<and>
   server (StartServer (Stop s)) = server (StartServer (ReplicationManager_new (scene s))) \<and>
   recentlyAddedObjects (StartServer (Stop s)) =
     recentlyAddedObjects (StartServer (ReplicationManager_new (scene s))) \<and>
   mode (StartStandalone (Stop s)) = mode (StartStandalone (ReplicationManager_new (scene s))) \<and>
   client (StartStandalone (Stop s)) = client (StartStandalone (ReplicationManager_new (scene s))) \<and>
   server (StartStandalone (Stop s)) = server (StartStandalone (ReplicationManager_new (scene s))) \<and>
   recentlyAddedObjects (StartStandalone (Stop s)) =
     recentlyAddedObjects (StartStandalone (ReplicationManager_new (scene s))) \<and>
   (\<forall>s' t'. StartClient E k (Stop s) = Some s' \<and>
            StartClient E' k (ReplicationManager_new (scene s)) = Some t' \<longrightarrow>
      mode s' = mode t' \<and> client s' = client t' \<and> server s' = server t' \<and>
      recentlyAddedObjects s' = recentlyAddedObjects t')"
proof (intro conjI allI impI; (elim conjE)?)
  show "(Stop ^^ Suc n) s = Stop s" by (rule Stop_repeated)
  show "StartServer (Stop s) = StartServer s" "StartStandalone (Stop s) = StartStandalone s"
    "StartClient E k (Stop s) = StartClient E k s"
    by (rule Start_after_Stop)+
  show "StartClient E k s \<noteq> None" if "dirtyCoversEntries s"
    using StartClient_defined[OF that, of E k] by auto
next
  fix s' assume a: "StartClient E k s = Some s'"
  show "server s' = None" "client s' \<noteq> None" "mode s' = Client"
    using StartClient_result[OF a] by simp_all
next
  fix s' t' assume a: "StartClient E k (Stop s) = Some s'"
    and b: "StartClient E' k (ReplicationManager_new (scene s)) = Some t'"
  show "mode s' = mode t'" "client s' = client t'" "server s' = server t'"
    "recentlyAddedObjects s' = recentlyAddedObjects t'"
    using StartClient_result[OF a] StartClient_result[OF b] by simp_all
qed (simp_all only: Stop_repeated Stop_fields StartServer_fields StartStandalone_fields
       Start_after_Stop new_scene option.distinct not_False_eq_True)

theorem mode_transitions_exclusive_witness:
  "map_option mode (StartClient (env_example True) (Some 3) one_object_example) = Some Client \<and>
   map_option server (StartClient (env_example True) (Some 3) one_object_example) = Some None \<and>
   server (StartServer one_object_example) = Some (ServerReplicator 0)"
proof -
  have cov: "dirtyCoversEntries one_object_example"
    by (simp add: dirtyCoversEntries_def one_object_example_eq)
  have sv: "server (StartServer one_object_example) = Some (ServerReplicator 0)"
    by (simp add: StartServer_fields one_object_example_eq)
  show ?thesis
    using mode_transitions_exclusive [of one_object_example "env_example True" "Some 3" 0
        "env_example True"] cov sv
    by (cases "StartClient (env_example True) (Some 3) one_object_example") simp_all
qed


subsection \<open>Client handshake\<close>

lemma deliver_append: "deliver (xs @ ys) s = deliver xs s \<bind> deliver ys"
  by (induction xs arbitrary: s) (auto split: bind_splits)

lemma lastConfigure_snoc:
  "lastConfigure (ds @ [d]) =
     (if msgId d = MSG_CONFIGURE then Some (readMsgConfigure (world d) (msgData d))
      else lastConfigure ds)"
  by (induction ds) (auto split: option.splits)

lemma lastSceneClock_snoc:
  "lastSceneClock (ds @ [d]) =
     (if msgId d = MSG_SCENE_CLOCK then Some (readMsgSceneClock (world d) (msgData d))
      else lastSceneClock ds)"
  by (induction ds) (auto split: option.splits)

lemma lastSceneClock_none:
  "\<forall>d \<in> set ds. msgId d \<noteq> MSG_SCENE_CLOCK \<Longrightarrow> lastSceneClock ds = None"
  by (induction ds) auto

lemma lastConfigure_none:
  "\<forall>d \<in> set ds. msgId d \<noteq> MSG_CONFIGURE \<Longrightarrow> lastConfigure ds = None"
  by (induction ds) auto

lemma step_other:
  assumes "client s = Some c" "replica c = None"
    "mid \<noteq> MSG_CONFIGURE" "mid \<noteq> MSG_SCENE_CLOCK"
  shows "ProcessMessage E conn mid dat s = Some (False, s)"
  using assms by (simp add: ProcessMessage_def ProcessMessageOnUninitializedClient_def)

lemma step_configure:
  assumes "client s = Some c" "replica c = None"
  shows "ProcessMessage E conn MSG_CONFIGURE dat s =
     (let msg = readMsgConfigure E dat;
          c1 = c\<lparr>ackMagic := Some (magic msg), serverSettings := Some (settings msg)\<rparr> in
      case initialClock c of
        Some clock \<Rightarrow>
          if isClockSynchronized E conn then
            Some (True,
               s\<lparr>client := Some (c1\<lparr>replica := Some (ClientReplica (scene s) conn clock (settings msg))\<rparr>),
                 calls := calls s @
                   [ConstructClientReplica (scene s) conn clock (settings msg),
                    WriteSerializedMessage conn MSG_SYNCHRONIZED (magic msg) ReliableUnordered]\<rparr>)
          else Some (True, s\<lparr>client := Some c1\<rparr>)
      | None \<Rightarrow> Some (True, s\<lparr>client := Some c1\<rparr>))"
  using assms
  by (simp add: ProcessMessage_def ProcessMessageOnUninitializedClient_def initializeIfReady_def
      IsReadyToInitialize_def Let_def split: option.splits)

lemma step_scene_clock:
  assumes "client s = Some c" "replica c = None" "serverSettings c = None \<longleftrightarrow> ackMagic c = None"
  shows "ProcessMessage E conn MSG_SCENE_CLOCK dat s =
     (let msg = readMsgSceneClock E dat;
          c1 = c\<lparr>initialClock := Some msg\<rparr> in
      case (serverSettings c, ackMagic c) of
        (Some sett, Some m) \<Rightarrow>
          if isClockSynchronized E conn then
            Some (True,
               s\<lparr>client := Some (c1\<lparr>replica := Some (ClientReplica (scene s) conn msg sett)\<rparr>),
                 calls := calls s @
                   [ConstructClientReplica (scene s) conn msg sett,
                    WriteSerializedMessage conn MSG_SYNCHRONIZED m ReliableUnordered]\<rparr>)
          else Some (True, s\<lparr>client := Some c1\<rparr>)
      | _ \<Rightarrow> Some (True, s\<lparr>client := Some c1\<rparr>))"
  using assms
  by (auto simp: ProcessMessage_def ProcessMessageOnUninitializedClient_def initializeIfReady_def
      IsReadyToInitialize_def Let_def split: option.splits)

lemma step_replica:
  assumes "client s = Some c" "replica c = Some r"
  shows "ProcessMessage E conn mid dat s =
           Some (replicaProcessMessage E r mid dat,
                 s\<lparr>calls := calls s @ [Replica_ProcessMessage mid dat]\<rparr>)"
  using assms by (simp add: ProcessMessage_def)

lemma deliver_initialized:
  "client s = Some c \<Longrightarrow> replica c = Some r \<Longrightarrow>
   \<exists>s'. deliver ds s = Some s' \<and> client s' = Some c \<and> scene s' = scene s \<and>
        filter handshakeCall (calls s') = filter handshakeCall (calls s)"
proof (induction ds arbitrary: s)
  case Nil
  then show ?case by simp
next
  case (Cons d ds)
  let ?s1 = "s\<lparr>calls := calls s @ [Replica_ProcessMessage (msgId d) (msgData d)]\<rparr>"
  have "client ?s1 = Some c" using Cons.prems by simp
  from Cons.IH[OF this Cons.prems(2)] obtain s' where
    "deliver ds ?s1 = Some s'" "client s' = Some c" "scene s' = scene ?s1"
    "filter handshakeCall (calls s') = filter handshakeCall (calls ?s1)"
    by blast
  then show ?case
    using step_replica[OF Cons.prems, of "world d" "sender d" "msgId d" "msgData d"]
    by simp
qed


lemma deliver_snoc:
  "deliver (ds @ [d]) s0 =
     deliver ds s0 \<bind>
       (\<lambda>s. map_option snd (ProcessMessage (world d) (sender d) (msgId d) (msgData d) s))"
  by (cases "deliver ds s0")
     (auto simp: deliver_append split: bind_splits option.splits)

lemma handshake_inv:
  assumes fresh: "client s0 = Some \<lparr>connection = k, serverSettings = None, initialClock = None,
                            ackMagic = None, replica = None\<rparr>"
  shows "\<exists>s c. deliver ds s0 = Some s \<and> scene s = scene s0 \<and> client s = Some c \<and>
     ((replica c = None \<and>
       filter handshakeCall (calls s) = filter handshakeCall (calls s0) \<and>
       serverSettings c = map_option settings (lastConfigure ds) \<and>
       ackMagic c = map_option magic (lastConfigure ds) \<and>
       initialClock c = lastSceneClock ds)
      \<or> (\<exists>conn clock sett m.
            replica c = Some (ClientReplica (scene s0) conn clock sett) \<and>
            filter handshakeCall (calls s) = filter handshakeCall (calls s0) @
              [ConstructClientReplica (scene s0) conn clock sett,
               WriteSerializedMessage conn MSG_SYNCHRONIZED m ReliableUnordered] \<and>
            lastConfigure ds \<noteq> None \<and> lastSceneClock ds \<noteq> None \<and>
            (\<exists>d \<in> set ds. isClockSynchronized (world d) (sender d))))"
proof (induction ds rule: rev_induct)
  case Nil
  show ?case using fresh by simp
next
  case (snoc d ds)
  define E where "E = world d"
  define conn where "conn = sender d"
  define mid where "mid = msgId d"
  define dat where "dat = msgData d"
  note d = E_def conn_def mid_def dat_def
  from snoc obtain s c where run: "deliver ds s0 = Some s" and sc: "scene s = scene s0"
    and cl: "client s = Some c"
    and inv: "(replica c = None \<and>
       filter handshakeCall (calls s) = filter handshakeCall (calls s0) \<and>
       serverSettings c = map_option settings (lastConfigure ds) \<and>
       ackMagic c = map_option magic (lastConfigure ds) \<and>
       initialClock c = lastSceneClock ds)
      \<or> (\<exists>conn clock sett m.
            replica c = Some (ClientReplica (scene s0) conn clock sett) \<and>
            filter handshakeCall (calls s) = filter handshakeCall (calls s0) @
              [ConstructClientReplica (scene s0) conn clock sett,
               WriteSerializedMessage conn MSG_SYNCHRONIZED m ReliableUnordered] \<and>
            lastConfigure ds \<noteq> None \<and> lastSceneClock ds \<noteq> None \<and>
            (\<exists>d \<in> set ds. isClockSynchronized (world d) (sender d)))"
    by blast
  have step: "deliver (ds @ [d]) s0 =
      map_option snd (ProcessMessage E conn mid dat s)"
    by (simp add: d deliver_snoc run)
  show ?case
  proof (cases "replica c")
    case (Some r)
    with inv have "\<exists>conn clock sett m.
            replica c = Some (ClientReplica (scene s0) conn clock sett) \<and>
            filter handshakeCall (calls s) = filter handshakeCall (calls s0) @
              [ConstructClientReplica (scene s0) conn clock sett,
               WriteSerializedMessage conn MSG_SYNCHRONIZED m ReliableUnordered] \<and>
            lastConfigure ds \<noteq> None \<and> lastSceneClock ds \<noteq> None \<and>
            (\<exists>d \<in> set ds. isClockSynchronized (world d) (sender d))"
      by simp
    then show ?thesis
      using step step_replica[OF cl Some, of E conn mid dat] sc cl
      by (auto simp: d[symmetric] lastConfigure_snoc lastSceneClock_snoc)
  next
    case None
    with inv have i1: "filter handshakeCall (calls s) = filter handshakeCall (calls s0)"
      "serverSettings c = map_option settings (lastConfigure ds)"
      "ackMagic c = map_option magic (lastConfigure ds)"
      "initialClock c = lastSceneClock ds"
      by simp_all
    then have same: "serverSettings c = None \<longleftrightarrow> ackMagic c = None" by simp
    consider (cfg) "mid = MSG_CONFIGURE" | (clk) "mid = MSG_SCENE_CLOCK"
      | (other) "mid \<noteq> MSG_CONFIGURE" "mid \<noteq> MSG_SCENE_CLOCK"
      by blast
    then show ?thesis
    proof cases
      case other
      then show ?thesis
        using step step_other[OF cl None other, of E conn dat] sc cl None i1
        by (simp add: d[symmetric] lastConfigure_snoc lastSceneClock_snoc)
    next
      case cfg
      show ?thesis
      proof (cases "initialClock c \<noteq> None \<and> isClockSynchronized E conn")
        case True
        then obtain clock where ck: "initialClock c = Some clock" by auto
        with True step step_configure[OF cl None, of E conn dat] sc cl None i1 cfg
        show ?thesis
          by (auto simp: d[symmetric] lastConfigure_snoc lastSceneClock_snoc Let_def)
      next
        case False
        with step step_configure[OF cl None, of E conn dat] sc cl None i1 cfg
        show ?thesis
          by (auto simp: d[symmetric] lastConfigure_snoc lastSceneClock_snoc Let_def split: option.splits)
      qed
    next
      case clk
      show ?thesis
      proof (cases "serverSettings c \<noteq> None \<and> isClockSynchronized E conn")
        case True
        then obtain sett m where ck: "serverSettings c = Some sett" "ackMagic c = Some m"
          using same by auto
        with True step step_scene_clock[OF cl None same, of E conn dat] sc cl None i1 clk
        show ?thesis
          by (auto simp: d[symmetric] lastConfigure_snoc lastSceneClock_snoc Let_def)
      next
        case False
        with step step_scene_clock[OF cl None same, of E conn dat] sc cl None i1 clk
        show ?thesis
          by (auto simp: d[symmetric] lastConfigure_snoc lastSceneClock_snoc Let_def split: option.splits)
      qed
    qed
  qed
qed



lemma handshake_not_started:
  assumes fresh: "client s0 = Some \<lparr>connection = k, serverSettings = None, initialClock = None,
                            ackMagic = None, replica = None\<rparr>"
    and no: "lastSceneClock ds = None \<or> (\<forall>d \<in> set ds. \<not> isClockSynchronized (world d) (sender d))"
  shows "\<exists>s c. deliver ds s0 = Some s \<and> client s = Some c \<and> replica c = None \<and>
           filter handshakeCall (calls s) = filter handshakeCall (calls s0)"
  using handshake_inv[OF fresh, of ds] no by auto

lemma handshake_completes:
  assumes fresh: "client s0 = Some \<lparr>connection = k, serverSettings = None, initialClock = None,
                            ackMagic = None, replica = None\<rparr>"
    and pre: "deliver pre s0 = Some s1" "client s1 = Some c1" "replica c1 = None"
    and sync: "isClockSynchronized (world d) (sender d)"
    and kind: "msgId d = MSG_CONFIGURE \<or> msgId d = MSG_SCENE_CLOCK"
    and cfg: "lastConfigure (pre @ [d]) = Some cfg"
    and clk: "lastSceneClock (pre @ [d]) = Some clock"
  shows "\<exists>s c. deliver (pre @ d # post) s0 = Some s \<and> client s = Some c \<and>
           replica c = Some (ClientReplica (scene s0) (sender d) clock (settings cfg)) \<and>
           filter handshakeCall (calls s) = filter handshakeCall (calls s0) @
             [ConstructClientReplica (scene s0) (sender d) clock (settings cfg),
              WriteSerializedMessage (sender d) MSG_SYNCHRONIZED (magic cfg) ReliableUnordered]"
proof -
  from handshake_inv[OF fresh, of pre] pre
  have sc: "scene s1 = scene s0"
    and i1: "filter handshakeCall (calls s1) = filter handshakeCall (calls s0)"
      "serverSettings c1 = map_option settings (lastConfigure pre)"
      "ackMagic c1 = map_option magic (lastConfigure pre)"
      "initialClock c1 = lastSceneClock pre"
    by auto
  then have same: "serverSettings c1 = None \<longleftrightarrow> ackMagic c1 = None" by simp
  have "\<exists>b s2 c2. ProcessMessage (world d) (sender d) (msgId d) (msgData d) s1 = Some (b, s2) \<and>
          client s2 = Some c2 \<and> scene s2 = scene s0 \<and>
          replica c2 = Some (ClientReplica (scene s0) (sender d) clock (settings cfg)) \<and>
          filter handshakeCall (calls s2) = filter handshakeCall (calls s0) @
             [ConstructClientReplica (scene s0) (sender d) clock (settings cfg),
              WriteSerializedMessage (sender d) MSG_SYNCHRONIZED (magic cfg) ReliableUnordered]"
  proof (cases "msgId d = MSG_CONFIGURE")
    case True
    with cfg clk have "readMsgConfigure (world d) (msgData d) = cfg" "initialClock c1 = Some clock"
      by (simp_all add: lastConfigure_snoc lastSceneClock_snoc i1)
    then show ?thesis
      using step_configure[OF pre(2,3), of "world d" "sender d" "msgData d"] True sync sc i1(1)
      by (auto simp: Let_def)
  next
    case False
    with kind have k: "msgId d = MSG_SCENE_CLOCK" by simp
    with cfg clk False have "readMsgSceneClock (world d) (msgData d) = clock"
      "serverSettings c1 = Some (settings cfg)" "ackMagic c1 = Some (magic cfg)"
      by (simp_all add: lastConfigure_snoc lastSceneClock_snoc i1)
    then show ?thesis
      using step_scene_clock[OF pre(2,3) same, of "world d" "sender d" "msgData d"] k sync sc i1(1)
      by (auto simp: Let_def)
  qed
  then obtain b s2 c2 where
    st: "ProcessMessage (world d) (sender d) (msgId d) (msgData d) s1 = Some (b, s2)"
    and c2: "client s2 = Some c2"
      "replica c2 = Some (ClientReplica (scene s0) (sender d) clock (settings cfg))"
    and h2: "filter handshakeCall (calls s2) = filter handshakeCall (calls s0) @
             [ConstructClientReplica (scene s0) (sender d) clock (settings cfg),
              WriteSerializedMessage (sender d) MSG_SYNCHRONIZED (magic cfg) ReliableUnordered]"
    by blast
  from deliver_initialized[OF c2, of post] obtain s' where
    "deliver post s2 = Some s'" "client s' = Some c2"
    "filter handshakeCall (calls s') = filter handshakeCall (calls s2)"
    by blast
  with st c2 h2 pre(1) show ?thesis
    by (simp add: deliver_append)
qed

text \<open>C1: for every sequence of deliveries to a client that \<^verbatim>\<open>StartClient\<close> has just
  created: processing never faults, and the client replica is constructed at most once,
  together with exactly one Synchronized message, sent reliable-unordered. If no SceneClock
  message is among the deliveries (Configure alone), or if the connection reports its clock
  unsynchronized at every delivery, no replica is constructed and nothing is sent. At the
  first Configure or SceneClock message that is processed while the connection reports a
  synchronized clock, with both kinds received by then, the replica is constructed from
  the latest clock and settings, and the one Synchronized message carries the magic token
  of the latest Configure message; later deliveries add nothing.\<close>

theorem client_handshake:
  assumes "client s0 = Some \<lparr>connection = k, serverSettings = None, initialClock = None,
                            ackMagic = None, replica = None\<rparr>"
  shows
    "(\<exists>s c. deliver ds s0 = Some s \<and> client s = Some c \<and>
        (case replica c of
           None \<Rightarrow> filter handshakeCall (calls s) = filter handshakeCall (calls s0)
         | Some r \<Rightarrow>
             \<exists>conn clock sett m.
               r = ClientReplica (scene s0) conn clock sett \<and>
               filter handshakeCall (calls s) = filter handshakeCall (calls s0) @
                 [ConstructClientReplica (scene s0) conn clock sett,
                  WriteSerializedMessage conn MSG_SYNCHRONIZED m ReliableUnordered])) \<and>
     ((\<forall>d \<in> set ds. msgId d \<noteq> MSG_SCENE_CLOCK) \<longrightarrow>
        (\<exists>s c. deliver ds s0 = Some s \<and> client s = Some c \<and> replica c = None \<and>
           filter handshakeCall (calls s) = filter handshakeCall (calls s0))) \<and>
     ((\<forall>d \<in> set ds. \<not> isClockSynchronized (world d) (sender d)) \<longrightarrow>
        (\<exists>s c. deliver ds s0 = Some s \<and> client s = Some c \<and> replica c = None \<and>
           filter handshakeCall (calls s) = filter handshakeCall (calls s0))) \<and>
     (\<forall>pre d post s1 c1 cfg clock.
        ds = pre @ d # post \<and> deliver pre s0 = Some s1 \<and> client s1 = Some c1 \<and>
        replica c1 = None \<and> isClockSynchronized (world d) (sender d) \<and>
        (msgId d = MSG_CONFIGURE \<or> msgId d = MSG_SCENE_CLOCK) \<and>
        lastConfigure (pre @ [d]) = Some cfg \<and> lastSceneClock (pre @ [d]) = Some clock \<longrightarrow>
        (\<exists>s c. deliver ds s0 = Some s \<and> client s = Some c \<and>
           replica c = Some (ClientReplica (scene s0) (sender d) clock (settings cfg)) \<and>
           filter handshakeCall (calls s) = filter handshakeCall (calls s0) @
             [ConstructClientReplica (scene s0) (sender d) clock (settings cfg),
              WriteSerializedMessage (sender d) MSG_SYNCHRONIZED (magic cfg)
                ReliableUnordered]))"
proof (intro conjI allI impI)
  show "\<exists>s c. deliver ds s0 = Some s \<and> client s = Some c \<and>
        (case replica c of
           None \<Rightarrow> filter handshakeCall (calls s) = filter handshakeCall (calls s0)
         | Some r \<Rightarrow>
             \<exists>conn clock sett m.
               r = ClientReplica (scene s0) conn clock sett \<and>
               filter handshakeCall (calls s) = filter handshakeCall (calls s0) @
                 [ConstructClientReplica (scene s0) conn clock sett,
                  WriteSerializedMessage conn MSG_SYNCHRONIZED m ReliableUnordered])"
  proof -
    from handshake_inv[OF assms, of ds] obtain s c where
      r: "deliver ds s0 = Some s" "client s = Some c" and
      i: "(replica c = None \<and>
            filter handshakeCall (calls s) = filter handshakeCall (calls s0)) \<or>
          (\<exists>conn clock sett m.
            replica c = Some (ClientReplica (scene s0) conn clock sett) \<and>
            filter handshakeCall (calls s) = filter handshakeCall (calls s0) @
              [ConstructClientReplica (scene s0) conn clock sett,
               WriteSerializedMessage conn MSG_SYNCHRONIZED m ReliableUnordered])"
      by blast
    from i have "case replica c of
           None \<Rightarrow> filter handshakeCall (calls s) = filter handshakeCall (calls s0)
         | Some r \<Rightarrow>
             \<exists>conn clock sett m.
               r = ClientReplica (scene s0) conn clock sett \<and>
               filter handshakeCall (calls s) = filter handshakeCall (calls s0) @
                 [ConstructClientReplica (scene s0) conn clock sett,
                  WriteSerializedMessage conn MSG_SYNCHRONIZED m ReliableUnordered]"
      by (cases "replica c") auto
    with r show ?thesis by blast
  qed
next
  assume "\<forall>d \<in> set ds. msgId d \<noteq> MSG_SCENE_CLOCK"
  then have "lastSceneClock ds = None" by (rule lastSceneClock_none)
  then show "\<exists>s c. deliver ds s0 = Some s \<and> client s = Some c \<and> replica c = None \<and>
           filter handshakeCall (calls s) = filter handshakeCall (calls s0)"
    using handshake_not_started[OF assms] by blast
next
  assume "\<forall>d \<in> set ds. \<not> isClockSynchronized (world d) (sender d)"
  then show "\<exists>s c. deliver ds s0 = Some s \<and> client s = Some c \<and> replica c = None \<and>
           filter handshakeCall (calls s) = filter handshakeCall (calls s0)"
    using handshake_not_started[OF assms] by blast
next
  fix pre d post s1 c1 cfg clock
  assume a: "ds = pre @ d # post \<and> deliver pre s0 = Some s1 \<and> client s1 = Some c1 \<and>
        replica c1 = None \<and> isClockSynchronized (world d) (sender d) \<and>
        (msgId d = MSG_CONFIGURE \<or> msgId d = MSG_SCENE_CLOCK) \<and>
        lastConfigure (pre @ [d]) = Some cfg \<and> lastSceneClock (pre @ [d]) = Some clock"
  then show "\<exists>s c. deliver ds s0 = Some s \<and> client s = Some c \<and>
           replica c = Some (ClientReplica (scene s0) (sender d) clock (settings cfg)) \<and>
           filter handshakeCall (calls s) = filter handshakeCall (calls s0) @
             [ConstructClientReplica (scene s0) (sender d) clock (settings cfg),
              WriteSerializedMessage (sender d) MSG_SYNCHRONIZED (magic cfg)
                ReliableUnordered]"
    using handshake_completes[OF assms, of pre s1 c1 d cfg clock post] by simp
qed


theorem client_handshake_witness:
  "(\<exists>s c. deliver (unsynced_deliveries @ completing_delivery # [late_delivery])
             handshake_example = Some s \<and> client s = Some c \<and>
           replica c = Some (ClientReplica 0 3 (MsgSceneClock 6) []) \<and>
           filter handshakeCall (calls s) =
             [ConstructClientReplica 0 3 (MsgSceneClock 6) [],
              WriteSerializedMessage 3 MSG_SYNCHRONIZED 42 ReliableUnordered]) \<and>
   (\<exists>s c. deliver unsynced_deliveries handshake_example = Some s \<and> client s = Some c \<and>
           replica c = None \<and> filter handshakeCall (calls s) = [])"
proof -
  let ?c1 = "\<lparr>connection = Some 3, serverSettings = Some [],
              initialClock = Some (MsgSceneClock 5), ackMagic = Some 42, replica = None\<rparr>"
  have fresh: "client handshake_example =
      Some \<lparr>connection = Some 3, serverSettings = None, initialClock = None,
            ackMagic = None, replica = None\<rparr>"
    by (simp add: handshake_example_def)
  have pre: "deliver unsynced_deliveries handshake_example =
      Some (handshake_example\<lparr>client := Some ?c1\<rparr>)"
    by (simp add: unsynced_deliveries_def handshake_example_def ProcessMessage_def
        ProcessMessageOnUninitializedClient_def initializeIfReady_def IsReadyToInitialize_def
        env_example_def ReplicationManager_new_def Let_def)
  have cfg: "lastConfigure (unsynced_deliveries @ [completing_delivery]) =
      Some \<lparr>magic = 42, settings = []\<rparr>"
    by (simp add: unsynced_deliveries_def completing_delivery_def env_example_def)
  have clk: "lastSceneClock (unsynced_deliveries @ [completing_delivery]) =
      Some (MsgSceneClock 6)"
    by (simp add: unsynced_deliveries_def completing_delivery_def env_example_def)
  have d: "isClockSynchronized (world completing_delivery) (sender completing_delivery)"
    "msgId completing_delivery = MSG_SCENE_CLOCK" "sender completing_delivery = 3"
    by (simp_all add: completing_delivery_def env_example_def)
  have sc: "scene handshake_example = 0" "calls handshake_example = []"
    by (simp_all add: handshake_example_def ReplicationManager_new_def)
  note inst = client_handshake [OF fresh,
      of "unsynced_deliveries @ completing_delivery # [late_delivery]",
      THEN conjunct2, THEN conjunct2, THEN conjunct2, rule_format,
      of unsynced_deliveries completing_delivery "[late_delivery]"
         "handshake_example\<lparr>client := Some ?c1\<rparr>" ?c1
         "\<lparr>magic = 42, settings = []\<rparr>" "MsgSceneClock 6"]
  have "\<exists>s c. deliver (unsynced_deliveries @ completing_delivery # [late_delivery])
             handshake_example = Some s \<and> client s = Some c \<and>
           replica c = Some (ClientReplica 0 3 (MsgSceneClock 6) []) \<and>
           filter handshakeCall (calls s) =
             [ConstructClientReplica 0 3 (MsgSceneClock 6) [],
              WriteSerializedMessage 3 MSG_SYNCHRONIZED 42 ReliableUnordered]"
    using inst pre cfg clk d sc by simp
  moreover from pre have "\<exists>s c. deliver unsynced_deliveries handshake_example = Some s \<and>
      client s = Some c \<and> replica c = None \<and> filter handshakeCall (calls s) = []"
    by (simp add: sc)
  ultimately show ?thesis by blast
qed


subsection \<open>Standalone initialization\<close>

lemma GetNetworkObject_Some_iff:
  "GetNetworkObject nid True s = Some p \<longleftrightarrow>
     (\<exists>i v. nid = NetworkId i v \<and> i < length (entries s) \<and> entries s ! i = Some (v, p))"
  by (auto simp: GetNetworkObject_def GetTrackedComponentByReference_def
           split: NetworkId.splits option.splits if_splits)

lemma consistent_entry:
  "registryConsistent s \<Longrightarrow> i < length (entries s) \<Longrightarrow> entries s ! i = Some (v, p) \<Longrightarrow>
     p \<in> set (trackedComponents s) \<and> objectNetworkId s p = NetworkId i v"
  by (auto simp: registryConsistent_def split: option.splits)

lemma consistent_tracked:
  "registryConsistent s \<Longrightarrow> p \<in> set (trackedComponents s) \<Longrightarrow>
     \<exists>i v. objectNetworkId s p = NetworkId i v \<and> i < length (entries s) \<and>
           entries s ! i = Some (v, p)"
  by (auto simp: registryConsistent_def GetNetworkObject_Some_iff)

lemma consistent_inj:
  assumes "registryConsistent s" "p \<in> set (trackedComponents s)" "q \<in> set (trackedComponents s)"
    "objectNetworkId s p = objectNetworkId s q"
  shows "p = q"
proof -
  from consistent_tracked[OF assms(1,2)] obtain i v where
    a: "objectNetworkId s p = NetworkId i v" "entries s ! i = Some (v, p)" by blast
  from consistent_tracked[OF assms(1,3)] obtain j w where
    b: "objectNetworkId s q = NetworkId j w" "entries s ! j = Some (w, q)" by blast
  from a b assms(4) show ?thesis by simp
qed

lemma Base_added_entries:
  "entries (Base_OnComponentAdded (i, v) p s) =
     (entries s @ replicate (Suc i - length (entries s)) None)[i := Some (v, p)]"
  "trackedComponents (Base_OnComponentAdded (i, v) p s) = trackedComponents s @ [p]"
  "objectNetworkId (Base_OnComponentAdded (i, v) p s) = (objectNetworkId s)(p := NetworkId i v)"
  "recentlyAddedObjects (Base_OnComponentAdded (i, v) p s) = recentlyAddedObjects s"
  "mode (Base_OnComponentAdded (i, v) p s) = mode s"
  "client (Base_OnComponentAdded (i, v) p s) = client s"
  "server (Base_OnComponentAdded (i, v) p s) = server s"
  "networkObjectsDirty (Base_OnComponentAdded (i, v) p s) = networkObjectsDirty s"
  by (simp_all add: Base_OnComponentAdded_def Let_def)

lemma added_entry_nth:
  "j < length ((es @ replicate (Suc i - length es) None)[i := x]) \<Longrightarrow>
   (es @ replicate (Suc i - length es) None)[i := x] ! j =
     (if j = i then x else if j < length es then es ! j else None)"
  by (auto simp: nth_list_update nth_append)

lemma manager_added_fields:
  "entries (ReplicationManager_OnComponentAdded (i, v) p s) =
     (entries s @ replicate (Suc i - length (entries s)) None)[i := Some (v, p)]"
  "trackedComponents (ReplicationManager_OnComponentAdded (i, v) p s) = trackedComponents s @ [p]"
  "objectNetworkId (ReplicationManager_OnComponentAdded (i, v) p s) =
     (objectNetworkId s)(p := NetworkId i v)"
  "mode (ReplicationManager_OnComponentAdded (i, v) p s) = mode s"
  "client (ReplicationManager_OnComponentAdded (i, v) p s) = client s"
  "server (ReplicationManager_OnComponentAdded (i, v) p s) = server s"
  "recentlyAddedObjects (ReplicationManager_OnComponentAdded (i, v) p s) =
     (if mode s = Standalone then List.insert (NetworkId i v) (recentlyAddedObjects s)
      else recentlyAddedObjects s)"
  "length (networkObjectsDirty (ReplicationManager_OnComponentAdded (i, v) p s)) =
     max (length (networkObjectsDirty s)) (Suc i)"
  by (auto simp: ReplicationManager_OnComponentAdded_def NetworkObjectRegistry_OnComponentAdded_def
      Base_added_entries IsStandalone_def Let_def)

lemma added_consistent:
  assumes c: "registryConsistent s" and fresh: "p \<notin> set (trackedComponents s)"
    and free: "GetNetworkObjectByIndex i s = None"
  shows "registryConsistent (ReplicationManager_OnComponentAdded (i, v) p s)"
proof -
  let ?s' = "ReplicationManager_OnComponentAdded (i, v) p s"
  let ?es = "(entries s @ replicate (Suc i - length (entries s)) None)[i := Some (v, p)]"
  have len: "length ?es = max (length (entries s)) (Suc i)" by auto
  have freeD: "i < length (entries s) \<Longrightarrow> entries s ! i = None"
    using free by (auto simp: GetNetworkObjectByIndex_def GetTrackedComponentByReferenceIndex_def)
  have nth: "\<And>j. j < length ?es \<Longrightarrow>
      ?es ! j = (if j = i then Some (v, p) else if j < length (entries s) then entries s ! j else None)"
    by (rule added_entry_nth)
  have d: "distinct (trackedComponents ?s')"
    using c fresh by (simp add: manager_added_fields registryConsistent_def)
  have t: "GetNetworkObject (objectNetworkId ?s' q) True ?s' = Some q"
    if q: "q \<in> set (trackedComponents ?s')" for q
  proof (cases "q = p")
    case True
    then show ?thesis
      by (simp add: GetNetworkObject_Some_iff manager_added_fields)
  next
    case False
    with q have "q \<in> set (trackedComponents s)" by (simp add: manager_added_fields)
    from consistent_tracked[OF c this] obtain j w where
      j: "objectNetworkId s q = NetworkId j w" "j < length (entries s)" "entries s ! j = Some (w, q)"
      by blast
    with freeD have "j \<noteq> i" by auto
    with j False show ?thesis
      by (simp add: GetNetworkObject_Some_iff manager_added_fields nth_append)
  qed
  have e: "case entries ?s' ! j of None \<Rightarrow> True
         | Some (w, q) \<Rightarrow> q \<in> set (trackedComponents ?s') \<and> objectNetworkId ?s' q = NetworkId j w"
    if j: "j < length (entries ?s')" for j
  proof (cases "j = i")
    case True
    then show ?thesis by (simp add: manager_added_fields)
  next
    case False
    show ?thesis
    proof (cases "j < length (entries s)")
      case True
      show ?thesis
      proof (cases "entries s ! j")
        case None
        with True False show ?thesis by (simp add: manager_added_fields nth_append)
      next
        case (Some a)
        obtain w q where a: "a = (w, q)" by (cases a)
        from consistent_entry[OF c True Some[unfolded a]] fresh
        have "q \<in> set (trackedComponents s)" "objectNetworkId s q = NetworkId j w" "q \<noteq> p"
          by auto
        with True False Some a show ?thesis by (simp add: manager_added_fields nth_append)
      qed
    next
      case nl: False
      with j False have "entries ?s' ! j = None"
        using nth[of j] by (simp add: manager_added_fields)
      then show ?thesis by simp
    qed
  qed
  have cov: "dirtyCoversEntries ?s'"
    unfolding dirtyCoversEntries_def
  proof (intro allI impI)
    fix j assume j: "j < length (entries ?s')" and ne: "entries ?s' ! j \<noteq> None"
    show "j < length (networkObjectsDirty ?s')"
    proof (cases "j = i")
      case True
      then show ?thesis by (simp add: manager_added_fields)
    next
      case False
      with j ne have "j < length (entries s) \<and> entries s ! j \<noteq> None"
        using nth[of j] by (auto simp: manager_added_fields split: if_splits)
      with c have "j < length (networkObjectsDirty s)"
        by (auto simp: registryConsistent_def dirtyCoversEntries_def)
      then show ?thesis by (simp add: manager_added_fields)
    qed
  qed
  from d t e cov show ?thesis
    unfolding registryConsistent_def by blast
qed


lemma Base_removed_entries:
  "entries (Base_OnComponentRemoved c s) =
     map (\<lambda>e. case e of None \<Rightarrow> None
              | Some (v, c') \<Rightarrow> if c' = c then None else Some (v, c')) (entries s)"
  by (simp add: Base_OnComponentRemoved_def)

lemma registry_removed_entries:
  assumes "NetworkObjectRegistry_OnComponentRemoved p s = Some s'"
  shows "entries s' =
     map (\<lambda>e. case e of None \<Rightarrow> None
              | Some (v, c') \<Rightarrow> if c' = p then None else Some (v, c')) (entries s)"
proof -
  obtain s1 where s1: "s1 = s \<or> (\<exists>q. QueueNetworkObjectUpdate q s = Some s1)"
    and s': "s' = Base_OnComponentRemoved p
               (s1\<lparr>calls := calls s1 @ [Signal_OnNetworkObjectRemoved p]\<rparr>)"
    using assms by (rule registry_removed_cases)
  from s1 have "entries s1 = entries s" by (auto dest: queue_frame)
  then show ?thesis by (simp add: s' Base_removed_entries)
qed

lemma manager_removed_more:
  assumes "ReplicationManager_OnComponentRemoved p s = Some s'"
  shows "entries s' =
     map (\<lambda>e. case e of None \<Rightarrow> None
              | Some (v, c') \<Rightarrow> if c' = p then None else Some (v, c')) (entries s)"
    "recentlyAddedObjects s' =
       (if mode s = Standalone then removeAll (objectNetworkId s p) (recentlyAddedObjects s)
        else recentlyAddedObjects s)"
proof -
  define s0 where "s0 = (if IsStandalone s
                then s\<lparr>recentlyAddedObjects :=
                         removeAll (objectNetworkId s p) (recentlyAddedObjects s)\<rparr>
                else s)"
  have r: "NetworkObjectRegistry_OnComponentRemoved p s0 = Some s'"
    using assms by (simp add: ReplicationManager_OnComponentRemoved_def s0_def Let_def)
  show "entries s' =
     map (\<lambda>e. case e of None \<Rightarrow> None
              | Some (v, c') \<Rightarrow> if c' = p then None else Some (v, c')) (entries s)"
    using registry_removed_entries[OF r] by (simp add: s0_def)
  show "recentlyAddedObjects s' =
       (if mode s = Standalone then removeAll (objectNetworkId s p) (recentlyAddedObjects s)
        else recentlyAddedObjects s)"
    using registry_removed_frame(4)[OF r] by (simp add: s0_def IsStandalone_def)
qed

lemma removed_consistent:
  assumes c: "registryConsistent s"
    and r: "ReplicationManager_OnComponentRemoved p s = Some s'"
  shows "registryConsistent s'"
proof -
  note f = manager_removed_frame[OF r] manager_removed_more[OF r]
  have len: "length (entries s') = length (entries s)" by (simp add: f)
  have nth: "\<And>j. j < length (entries s) \<Longrightarrow> entries s' ! j =
      (case entries s ! j of None \<Rightarrow> None
       | Some (v, c') \<Rightarrow> if c' = p then None else Some (v, c'))"
    by (simp add: f)
  have d: "distinct (trackedComponents s')"
    using c by (simp add: f registryConsistent_def distinct_removeAll)
  have t: "GetNetworkObject (objectNetworkId s' q) True s' = Some q"
    if q: "q \<in> set (trackedComponents s')" for q
  proof -
    from q have q': "q \<in> set (trackedComponents s)" "q \<noteq> p" by (auto simp: f)
    from consistent_tracked[OF c q'(1)] obtain j w where
      j: "objectNetworkId s q = NetworkId j w" "j < length (entries s)" "entries s ! j = Some (w, q)"
      by blast
    with q' nth[of j] len show ?thesis
      by (simp add: GetNetworkObject_Some_iff f(7))
  qed
  have e: "case entries s' ! j of None \<Rightarrow> True
         | Some (w, q) \<Rightarrow> q \<in> set (trackedComponents s') \<and> objectNetworkId s' q = NetworkId j w"
    if j: "j < length (entries s')" for j
  proof (cases "entries s ! j")
    case None
    with j len nth[of j] show ?thesis by simp
  next
    case (Some a)
    obtain w q where a: "a = (w, q)" by (cases a)
    from j len have j': "j < length (entries s)" by simp
    from consistent_entry[OF c j' Some[unfolded a]]
    have "q \<in> set (trackedComponents s)" "objectNetworkId s q = NetworkId j w" by auto
    with nth[OF j'] Some a show ?thesis by (simp add: f(7,8))
  qed
  have cov: "dirtyCoversEntries s'"
    using c f(10) by (simp add: registryConsistent_def)
  from d t e cov show ?thesis
    unfolding registryConsistent_def by blast
qed

lemma added_pending:
  assumes c: "registryConsistent s" and st: "mode s = Standalone"
    and pm: "pendingMatches s P"
    and fresh: "p \<notin> set (trackedComponents s)"
    and free: "GetNetworkObjectByIndex i s = None"
  shows "pendingMatches (ReplicationManager_OnComponentAdded (i, v) p s) (insert p P)"
proof -
  let ?s' = "ReplicationManager_OnComponentAdded (i, v) p s"
  from pm have dist: "distinct (recentlyAddedObjects s)"
    and eq: "set (recentlyAddedObjects s) = objectNetworkId s ` P"
    and sub: "P \<subseteq> set (trackedComponents s)"
    by (simp_all add: pendingMatches_def)
  have notin: "NetworkId i v \<notin> set (recentlyAddedObjects s)"
  proof
    assume "NetworkId i v \<in> set (recentlyAddedObjects s)"
    with eq obtain q where q: "q \<in> P" "objectNetworkId s q = NetworkId i v" by auto
    with sub consistent_tracked[OF c, of q] have "i < length (entries s)" "entries s ! i \<noteq> None"
      by auto
    with free show False
      by (auto simp: GetNetworkObjectByIndex_def GetTrackedComponentByReferenceIndex_def)
  qed
  have pP: "p \<notin> P" using fresh sub by auto
  have img: "(objectNetworkId s)(p := NetworkId i v) ` P = objectNetworkId s ` P"
    using pP by (auto simp: image_iff)
  show ?thesis
    unfolding pendingMatches_def
    using dist eq sub notin st img
    by (auto simp: manager_added_fields List.insert_def)
qed

lemma removed_pending:
  assumes c: "registryConsistent s" and st: "mode s = Standalone"
    and pm: "pendingMatches s P"
    and tr: "p \<in> set (trackedComponents s)"
    and r: "ReplicationManager_OnComponentRemoved p s = Some s'"
  shows "pendingMatches s' (P - {p})"
proof -
  note f = manager_removed_frame[OF r] manager_removed_more[OF r]
  from pm have dist: "distinct (recentlyAddedObjects s)"
    and eq: "set (recentlyAddedObjects s) = objectNetworkId s ` P"
    and sub: "P \<subseteq> set (trackedComponents s)"
    by (simp_all add: pendingMatches_def)
  have "objectNetworkId s ` P - {objectNetworkId s p} = objectNetworkId s ` (P - {p})"
  proof (intro set_eqI iffI)
    fix x assume "x \<in> objectNetworkId s ` P - {objectNetworkId s p}"
    then show "x \<in> objectNetworkId s ` (P - {p})" by auto
  next
    fix x assume "x \<in> objectNetworkId s ` (P - {p})"
    then obtain q where q: "q \<in> P" "q \<noteq> p" "x = objectNetworkId s q" by auto
    with sub have "q \<in> set (trackedComponents s)" by auto
    with consistent_inj[OF c this tr] q have "x \<noteq> objectNetworkId s p" by auto
    with q show "x \<in> objectNetworkId s ` P - {objectNetworkId s p}" by auto
  qed
  with dist eq sub st show ?thesis
    unfolding pendingMatches_def
    by (auto simp: f distinct_removeAll)
qed

lemma change_step:
  assumes "registryConsistent s" "mode s = Standalone" "pendingMatches s P" "changeAllowed c s"
  shows "\<exists>s'. applyChange c s = Some s' \<and> registryConsistent s' \<and> mode s' = Standalone \<and>
           client s' = client s \<and> server s' = server s \<and> pendingMatches s' (pendingStep c P)"
proof (cases c)
  case (Added p i v)
  with assms show ?thesis
    by (simp add: added_consistent added_pending manager_added_fields)
next
  case (Removed p)
  from assms(1) have "dirtyCoversEntries s" by (simp add: registryConsistent_def)
  from manager_removed_defined[OF this, of p] obtain s' where
    r: "ReplicationManager_OnComponentRemoved p s = Some s'" by blast
  from assms Removed have tr: "p \<in> set (trackedComponents s)" by simp
  from removed_consistent[OF assms(1) r] removed_pending[OF assms(1-3) tr r]
    manager_removed_frame(1-3)[OF r] assms(2) r Removed
  show ?thesis by simp
qed

lemma changes_run:
  "registryConsistent s \<Longrightarrow> mode s = Standalone \<Longrightarrow> pendingMatches s P \<Longrightarrow>
   changesAllowed cs s \<Longrightarrow>
   \<exists>s'. applyChanges cs s = Some s' \<and> registryConsistent s' \<and> mode s' = Standalone \<and>
        client s' = client s \<and> server s' = server s \<and> pendingMatches s' (fold pendingStep cs P)"
proof (induction cs arbitrary: s P)
  case Nil
  then show ?case by simp
next
  case (Cons c cs)
  from Cons.prems have al: "changeAllowed c s" by simp
  from change_step[OF Cons.prems(1-3) al] obtain s1 where
    s1: "applyChange c s = Some s1" "registryConsistent s1" "mode s1 = Standalone"
      "client s1 = client s" "server s1 = server s" "pendingMatches s1 (pendingStep c P)"
    by blast
  from Cons.prems(4) s1(1) have "changesAllowed cs s1" by simp
  from Cons.IH[OF s1(2,3,6) this] s1 show ?case by simp
qed


lemma GetNetworkObject_calls [simp]:
  "GetNetworkObject nid b (s\<lparr>calls := x\<rparr>) = GetNetworkObject nid b s"
  by (simp add: GetNetworkObject_def GetTrackedComponentByReference_def split: NetworkId.splits)

lemma initializeEach_calls:
  "calls (initializeEach ids s) = calls s @
     concat (map (\<lambda>nid. case GetNetworkObject nid True s of
                           None \<Rightarrow> []
                         | Some p \<Rightarrow> [SetNetworkMode p Mode_Standalone, InitializeStandalone p]) ids)"
  by (induction ids arbitrary: s) (auto split: option.splits)

lemma count_list_distinct:
  "distinct xs \<Longrightarrow> count_list xs x = (if x \<in> set xs then 1 else 0)"
  by (induction xs) auto

lemma count_initialize:
  "count_list (concat (map (\<lambda>nid. [SetNetworkMode (g nid) Mode_Standalone,
                                    InitializeStandalone (g nid)]) ids))
     (InitializeStandalone p) = count_list (map g ids) p"
  "count_list (concat (map (\<lambda>nid. [SetNetworkMode (g nid) Mode_Standalone,
                                    InitializeStandalone (g nid)]) ids))
     (SetNetworkMode p Mode_Standalone) = count_list (map g ids) p"
  by (induction ids) auto

lemma pending_resolved:
  assumes c: "registryConsistent s" and pm: "pendingMatches s P"
  shows "\<exists>g. (\<forall>nid \<in> set (recentlyAddedObjects s). GetNetworkObject nid True s = Some (g nid)) \<and>
             distinct (map g (recentlyAddedObjects s)) \<and>
             set (map g (recentlyAddedObjects s)) = P"
proof -
  from pm have dist: "distinct (recentlyAddedObjects s)"
    and eq: "set (recentlyAddedObjects s) = objectNetworkId s ` P"
    and sub: "P \<subseteq> set (trackedComponents s)"
    by (simp_all add: pendingMatches_def)
  define g where "g nid = the (GetNetworkObject nid True s)" for nid
  have gP: "g (objectNetworkId s p) = p" "GetNetworkObject (objectNetworkId s p) True s = Some p"
    if "p \<in> P" for p
    using that sub c by (auto simp: g_def registryConsistent_def)
  have res: "\<forall>nid \<in> set (recentlyAddedObjects s). GetNetworkObject nid True s = Some (g nid)"
    using eq gP by auto
  have inj: "inj_on g (set (recentlyAddedObjects s))"
    unfolding eq by (rule inj_onI) (auto simp: gP)
  have img: "g ` set (recentlyAddedObjects s) = P"
    unfolding eq using gP by (auto simp: image_iff)
  from res inj img dist show ?thesis
    by (intro exI[of _ g]) (simp add: distinct_map)
qed

lemma tick_counts:
  assumes c: "registryConsistent s" and pm: "pendingMatches s P"
  shows "\<exists>new. calls (InitializeObjectsStandalone s) = calls s @ new \<and>
           (\<forall>p. count_list new (InitializeStandalone p) = (if p \<in> P then 1 else 0) \<and>
                count_list new (SetNetworkMode p Mode_Standalone) = (if p \<in> P then 1 else 0))"
proof -
  from pending_resolved[OF c pm] obtain g where
    res: "\<forall>nid \<in> set (recentlyAddedObjects s). GetNetworkObject nid True s = Some (g nid)"
    and d: "distinct (map g (recentlyAddedObjects s))"
    and im: "set (map g (recentlyAddedObjects s)) = P"
    by blast
  let ?new = "concat (map (\<lambda>nid. [SetNetworkMode (g nid) Mode_Standalone,
                                   InitializeStandalone (g nid)]) (recentlyAddedObjects s))"
  have meq: "map (\<lambda>nid. case GetNetworkObject nid True s of
                           None \<Rightarrow> []
                         | Some p \<Rightarrow> [SetNetworkMode p Mode_Standalone, InitializeStandalone p])
          (recentlyAddedObjects s) =
        map (\<lambda>nid. [SetNetworkMode (g nid) Mode_Standalone, InitializeStandalone (g nid)])
          (recentlyAddedObjects s)"
    using res by (intro map_cong) auto
  have "calls (InitializeObjectsStandalone s) = calls s @
      concat (map (\<lambda>nid. case GetNetworkObject nid True s of
                           None \<Rightarrow> []
                         | Some p \<Rightarrow> [SetNetworkMode p Mode_Standalone, InitializeStandalone p])
          (recentlyAddedObjects s))"
    by (simp add: InitializeObjectsStandalone_def initializeEach_calls)
  then have "calls (InitializeObjectsStandalone s) = calls s @ ?new"
    by (simp only: meq)
  moreover have "count_list ?new (InitializeStandalone p) = (if p \<in> P then 1 else 0)"
       "count_list ?new (SetNetworkMode p Mode_Standalone) = (if p \<in> P then 1 else 0)" for p
    using count_list_distinct[OF d, of p] im by (simp_all only: count_initialize)
  ultimately show ?thesis by blast
qed

lemma count_list_append_other:
  "count_list (xs @ [y]) x = count_list xs x + (if x = y then 1 else 0)"
  by (induction xs) auto

lemma applyChanges_append:
  "applyChanges (xs @ ys) s = applyChanges xs s \<bind> applyChanges ys"
  by (induction xs arbitrary: s) (auto split: bind_splits)

lemma changesAllowed_prefix:
  "changesAllowed (xs @ ys) s \<Longrightarrow> changesAllowed xs s"
  by (induction xs arbitrary: s) (auto split: option.splits)

lemma changesAllowed_next:
  "changesAllowed (xs @ c # ys) s \<Longrightarrow> applyChanges xs s = Some u \<Longrightarrow> changeAllowed c u"
  by (induction xs arbitrary: s) (auto split: option.splits bind_splits)

lemma removal_drops:
  assumes c0: "registryConsistent s0" and m0: "mode s0 = Standalone"
    and r0: "recentlyAddedObjects s0 = []"
    and al: "changesAllowed (pre @ Removed p # post) s0"
  shows "\<exists>t. applyChanges (pre @ [Removed p]) s0 = Some t \<and>
           objectNetworkId t p \<notin> set (recentlyAddedObjects t) \<and>
           distinct (recentlyAddedObjects t) \<and>
           set (recentlyAddedObjects t) = objectNetworkId t ` pendingObjects (pre @ [Removed p])"
proof -
  have pm0: "pendingMatches s0 {}"
    using r0 by (simp add: pendingMatches_def)
  from changes_run[OF c0 m0 pm0 changesAllowed_prefix[OF al]] obtain u where
    u: "applyChanges pre s0 = Some u" "registryConsistent u" "mode u = Standalone"
    by blast
  from changesAllowed_next[OF al u(1)] have tr: "changeAllowed (Removed p) u" .
  have al2: "changesAllowed (pre @ [Removed p]) s0"
    using changesAllowed_prefix[of "pre @ [Removed p]" post s0] al by simp
  from changes_run[OF c0 m0 pm0 al2] obtain t where
    t: "applyChanges (pre @ [Removed p]) s0 = Some t"
      "pendingMatches t (pendingObjects (pre @ [Removed p]))"
    by (auto simp: pendingObjects_def)
  from t(1) u(1) have rm: "ReplicationManager_OnComponentRemoved p u = Some t"
    by (simp add: applyChanges_append split: bind_splits)
  from manager_removed_more(2)[OF rm] manager_removed_frame(7)[OF rm] u(3)
  have "objectNetworkId t p \<notin> set (recentlyAddedObjects t)" by simp
  with t show ?thesis by (simp add: pendingMatches_def)
qed

text \<open>C9: start from a consistent registry in Standalone mode whose recently-added set is
  empty (as after a tick), and let NetworkObjects be added and removed. Then the changes
  and the next scene-update tick run without a fault. Before the tick the recently-added
  set holds, without repetition, exactly the NetworkIds of the objects added and not
  removed since; right after each removal the NetworkId of the removed object is not in
  the set. After the tick the set is empty, and among the calls the tick issues, every
  object added and not removed since is set to Standalone mode exactly once and
  initialized as standalone exactly once, and no other object is.\<close>

theorem standalone_objects_initialized_once:
  assumes "registryConsistent s0" "mode s0 = Standalone" "client s0 = None" "server s0 = None"
    "recentlyAddedObjects s0 = []" "changesAllowed cs s0"
  shows "(\<exists>s s'. applyChanges cs s0 = Some s \<and> OnSceneUpdate timeStep s = Some s' \<and>
           distinct (recentlyAddedObjects s) \<and>
           set (recentlyAddedObjects s) = objectNetworkId s ` pendingObjects cs \<and>
           recentlyAddedObjects s' = [] \<and>
           pendingObjects cs \<subseteq> set (trackedComponents s) \<and>
           take (length (calls s)) (calls s') = calls s \<and>
           (\<forall>p. count_list (drop (length (calls s)) (calls s')) (InitializeStandalone p) =
                  (if p \<in> pendingObjects cs then 1 else 0) \<and>
                count_list (drop (length (calls s)) (calls s')) (SetNetworkMode p Mode_Standalone) =
                  (if p \<in> pendingObjects cs then 1 else 0))) \<and>
         (\<forall>pre p post. cs = pre @ Removed p # post \<longrightarrow>
            (\<exists>t. applyChanges (pre @ [Removed p]) s0 = Some t \<and>
                 objectNetworkId t p \<notin> set (recentlyAddedObjects t) \<and>
                 distinct (recentlyAddedObjects t) \<and>
                 set (recentlyAddedObjects t) =
                   objectNetworkId t ` pendingObjects (pre @ [Removed p])))"
proof (intro conjI allI impI)
  have pm0: "pendingMatches s0 {}"
    using assms(5) by (simp add: pendingMatches_def)
  from changes_run[OF assms(1,2) pm0 assms(6)] obtain s where
    s: "applyChanges cs s0 = Some s" "registryConsistent s" "mode s = Standalone"
      "client s = None" "server s = None" "pendingMatches s (pendingObjects cs)"
    using assms(3,4) by (auto simp: pendingObjects_def)
  from tick_counts[OF s(2,6)] obtain new where
    new: "calls (InitializeObjectsStandalone s) = calls s @ new"
      "\<And>p. count_list new (InitializeStandalone p) = (if p \<in> pendingObjects cs then 1 else 0)"
      "\<And>p. count_list new (SetNetworkMode p Mode_Standalone) =
              (if p \<in> pendingObjects cs then 1 else 0)"
    by blast
  let ?s1 = "InitializeObjectsStandalone s"
  let ?s' = "?s1\<lparr>calls := calls ?s1 @ [SendEvent E_SCENENETWORKUPDATE (scene ?s1) timeStep timeStep]\<rparr>"
  have tick: "OnSceneUpdate timeStep s = Some ?s'"
    using s(3-5) by (simp add: OnSceneUpdate_def HandleSceneUpdate_def Let_def)
  have r: "recentlyAddedObjects ?s' = []"
    by (simp add: InitializeObjectsStandalone_def)
  have sub: "pendingObjects cs \<subseteq> set (trackedComponents s)"
    and before: "distinct (recentlyAddedObjects s)"
      "set (recentlyAddedObjects s) = objectNetworkId s ` pendingObjects cs"
    using s(6) by (simp_all add: pendingMatches_def)
  have cl: "calls ?s' = calls s @ new @ [SendEvent E_SCENENETWORKUPDATE (scene ?s1) timeStep timeStep]"
    by (simp add: new(1))
  have "take (length (calls s)) (calls ?s') = calls s"
    "drop (length (calls s)) (calls ?s') =
       new @ [SendEvent E_SCENENETWORKUPDATE (scene ?s1) timeStep timeStep]"
    by (simp_all add: cl)
  with s(1) tick r sub before new(2,3)
  show "\<exists>s s'. applyChanges cs s0 = Some s \<and> OnSceneUpdate timeStep s = Some s' \<and>
           distinct (recentlyAddedObjects s) \<and>
           set (recentlyAddedObjects s) = objectNetworkId s ` pendingObjects cs \<and>
           recentlyAddedObjects s' = [] \<and>
           pendingObjects cs \<subseteq> set (trackedComponents s) \<and>
           take (length (calls s)) (calls s') = calls s \<and>
           (\<forall>p. count_list (drop (length (calls s)) (calls s')) (InitializeStandalone p) =
                  (if p \<in> pendingObjects cs then 1 else 0) \<and>
                count_list (drop (length (calls s)) (calls s')) (SetNetworkMode p Mode_Standalone) =
                  (if p \<in> pendingObjects cs then 1 else 0))"
    by (intro exI[of _ s] exI[of _ ?s']) (simp add: count_list_append_other)
next
  fix pre p post assume "cs = pre @ Removed p # post"
  with assms(6) have "changesAllowed (pre @ Removed p # post) s0" by simp
  from removal_drops[OF assms(1,2,5) this]
  show "\<exists>t. applyChanges (pre @ [Removed p]) s0 = Some t \<and>
                 objectNetworkId t p \<notin> set (recentlyAddedObjects t) \<and>
                 distinct (recentlyAddedObjects t) \<and>
                 set (recentlyAddedObjects t) =
                   objectNetworkId t ` pendingObjects (pre @ [Removed p])" .
qed

lemma new_consistent: "registryConsistent (ReplicationManager_new sc)"
  by (simp add: registryConsistent_def dirtyCoversEntries_def ReplicationManager_new_def)

lemma example_allowed: "changesAllowed three_added_one_removed (ReplicationManager_new 0)"
  by (simp add: three_added_one_removed_def ReplicationManager_new_def
      ReplicationManager_OnComponentAdded_def NetworkObjectRegistry_OnComponentAdded_def
      Base_OnComponentAdded_def ReplicationManager_OnComponentRemoved_def
      NetworkObjectRegistry_OnComponentRemoved_def Base_OnComponentRemoved_def
      GetNetworkObjectByIndex_def GetTrackedComponentByReferenceIndex_def
      IsStandalone_def Let_def)

lemma example_pending: "pendingObjects three_added_one_removed = {1, 3}"
  by (auto simp: pendingObjects_def three_added_one_removed_def)

lemma example_before_tick:
  "map_option recentlyAddedObjects
     (applyChanges three_added_one_removed (ReplicationManager_new 0))
     = Some [NetworkId 2 0, NetworkId 0 0]"
  by (simp add: three_added_one_removed_def ReplicationManager_new_def
      ReplicationManager_OnComponentAdded_def NetworkObjectRegistry_OnComponentAdded_def
      Base_OnComponentAdded_def ReplicationManager_OnComponentRemoved_def
      NetworkObjectRegistry_OnComponentRemoved_def Base_OnComponentRemoved_def
      IsStandalone_def Let_def)

theorem standalone_objects_initialized_once_witness:
  "\<exists>s s'. applyChanges three_added_one_removed (ReplicationManager_new 0) = Some s \<and>
          recentlyAddedObjects s = [NetworkId 2 0, NetworkId 0 0] \<and>
          set (recentlyAddedObjects s) = objectNetworkId s ` {1, 3} \<and>
          OnSceneUpdate 0 s = Some s' \<and> recentlyAddedObjects s' = [] \<and>
          count_list (drop (length (calls s)) (calls s')) (InitializeStandalone 1) = 1 \<and>
          count_list (drop (length (calls s)) (calls s')) (InitializeStandalone 3) = 1 \<and>
          count_list (drop (length (calls s)) (calls s')) (InitializeStandalone 2) = 0 \<and>
          count_list (drop (length (calls s)) (calls s')) (SetNetworkMode 1 Mode_Standalone) = 1"
proof -
  have m: "mode (ReplicationManager_new 0) = Standalone" "client (ReplicationManager_new 0) = None"
    "server (ReplicationManager_new 0) = None" "recentlyAddedObjects (ReplicationManager_new 0) = []"
    by (simp_all add: ReplicationManager_new_def)
  from standalone_objects_initialized_once [OF new_consistent m example_allowed, of 0,
      THEN conjunct1]
  obtain s s' where
    r: "applyChanges three_added_one_removed (ReplicationManager_new 0) = Some s"
      "OnSceneUpdate 0 s = Some s'" "recentlyAddedObjects s' = []"
      "set (recentlyAddedObjects s) = objectNetworkId s ` pendingObjects three_added_one_removed"
    and cnt: "\<And>p. count_list (drop (length (calls s)) (calls s')) (InitializeStandalone p) =
                  (if p \<in> pendingObjects three_added_one_removed then 1 else 0)"
             "\<And>p. count_list (drop (length (calls s)) (calls s')) (SetNetworkMode p Mode_Standalone) =
                  (if p \<in> pendingObjects three_added_one_removed then 1 else 0)"
    by blast
  from example_before_tick r(1)
  have b: "recentlyAddedObjects s = [NetworkId 2 0, NetworkId 0 0]" by simp
  from cnt(1)[of 1] cnt(1)[of 3] cnt(1)[of 2] cnt(2)[of 1] r b show ?thesis
    by (intro exI[of _ s] exI[of _ s']) (simp add: example_pending)
qed

subsection \<open>GetSortedNetworkObjects\<close>





















end
